theory Spec2Isabelle
  imports Main "HOL-Library.Multiset" "HOL-Library.Sublist"
begin

section \<open>Python values, exceptions and builtins used by the adapters\<close>

text \<open>
  The two adapters (\<^verbatim>\<open>seller.py\<close> for the Ozon account, \<^verbatim>\<open>market.py\<close> for the
  Yandex Market account) work on the rows of the supplier spreadsheet, on lists of offer
  ids and on plain strings. A Python string is a \<^typ>\<open>string\<close> whose characters are
  the code points below 256; strings with other code points are outside the model. On
  these strings the builtins below are modelled exactly. Interpreters from 3.11 on can
  bound the number of digits that \<^verbatim>\<open>int\<close> and \<^verbatim>\<open>str\<close> convert
  (\<^verbatim>\<open>sys.set_int_max_str_digits\<close>); the model is the setting without a bound, which is
  the behaviour of every earlier interpreter.

  An exception is a value of \<^verbatim>\<open>error\<close>; a function that may raise returns
  \<^verbatim>\<open>error + 'a\<close> with \<^verbatim>\<open>Inl\<close> for the exception.
\<close>

datatype error = ValueError | TypeError | AttributeError | HTTPError | ConnectionError

text \<open>
  A spreadsheet cell as decoded by the feed loader: a string, an integer, or \<^verbatim>\<open>None\<close>.
  \<^verbatim>\<open>watch.get(key)\<close> returns \<^verbatim>\<open>None\<close> for an absent key, so an absent column is
  \<^verbatim>\<open>PNone\<close> as well. Floating-point cells are outside the model.
\<close>

datatype pyval = PStr string | PInt int | PNone

definition is_digit :: "char \<Rightarrow> bool" where
  "is_digit c = (48 \<le> (of_char c :: nat) \<and> (of_char c :: nat) \<le> 57)"

definition digit_val :: "char \<Rightarrow> nat" where
  "digit_val c = of_char c - 48"

definition digit_char :: "nat \<Rightarrow> char" where
  "digit_char d = char_of (48 + d)"

text \<open>The value of a run of decimal digits, most significant digit first.\<close>

definition dec_value :: "string \<Rightarrow> nat" where
  "dec_value ds = foldl (\<lambda>a c. 10 * a + digit_val c) 0 ds"

text \<open>\<^verbatim>\<open>str(n)\<close> for an integer: the decimal digits, with a minus sign when negative.\<close>

function str_nat :: "nat \<Rightarrow> string" where
  "str_nat n = (if n < 10 then [digit_char n] else str_nat (n div 10) @ [digit_char (n mod 10)])"
  by pat_completeness auto
termination
  by (relation "measure id") auto

declare str_nat.simps [simp del]

definition str_int :: "int \<Rightarrow> string" where
  "str_int i = (if i < 0 then CHR ''-'' # str_nat (nat (- i)) else str_nat (nat i))"

text \<open>\<^verbatim>\<open>str(v)\<close>.\<close>

fun py_str :: "pyval \<Rightarrow> string" where
  "py_str (PStr s) = s"
| "py_str (PInt i) = str_int i"
| "py_str PNone = ''None''"

text \<open>
  \<^verbatim>\<open>int(s)\<close> for a string, base ten: blanks on both sides are dropped, one sign may
  lead, then come decimal digits, where single underscores may stand between two digits.
  Everything else raises \<^verbatim>\<open>ValueError\<close>. The blanks that \<^verbatim>\<open>int\<close> drops are the
  six ASCII ones and, beyond ASCII, the Unicode spaces, of which the next-line control
  (code 133) and the no-break space (code 160) lie below 256; the separators of codes 28
  to 31 are not dropped. Below 256 the only decimal digits are \<^verbatim>\<open>0\<close> to \<^verbatim>\<open>9\<close>.
\<close>

definition is_space :: "char \<Rightarrow> bool" where
  "is_space c =
     (c \<in> {CHR 0x09, CHR 0x0A, CHR 0x0B, CHR 0x0C, CHR 0x0D, CHR '' '', CHR 0x85, CHR 0xA0})"

fun no_double_underscore :: "string \<Rightarrow> bool" where
  "no_double_underscore (a # b # cs) =
     (\<not> (a = CHR ''_'' \<and> b = CHR ''_'') \<and> no_double_underscore (b # cs))"
| "no_double_underscore cs = True"

definition digit_body_ok :: "string \<Rightarrow> bool" where
  "digit_body_ok b = (b \<noteq> [] \<and> is_digit (hd b) \<and> is_digit (last b) \<and> no_double_underscore b)"

definition int_of_str :: "string \<Rightarrow> error + int" where
  "int_of_str s =
     (let t = dropWhile is_space s;
          neg = (t \<noteq> [] \<and> hd t = CHR ''-'');
          u = (if t \<noteq> [] \<and> (hd t = CHR ''+'' \<or> hd t = CHR ''-'') then tl t else t);
          b = takeWhile (\<lambda>c. is_digit c \<or> c = CHR ''_'') u;
          r = dropWhile (\<lambda>c. is_digit c \<or> c = CHR ''_'') u
      in if digit_body_ok b \<and> list_all is_space r
         then Inr (if neg then - int (dec_value (filter is_digit b))
                   else int (dec_value (filter is_digit b)))
         else Inl ValueError)"

text \<open>\<^verbatim>\<open>int(v)\<close>: an integer is returned as it is, \<^verbatim>\<open>None\<close> is a \<^verbatim>\<open>TypeError\<close>.\<close>

fun py_int :: "pyval \<Rightarrow> error + int" where
  "py_int (PStr s) = int_of_str s"
| "py_int (PInt i) = Inr i"
| "py_int PNone = Inl TypeError"

section \<open>Price normalizer\<close>

text \<open>\<^verbatim>\<open>s.split(c)\<close> for a one-character separator; the result is never empty.\<close>

fun split_char :: "char \<Rightarrow> string \<Rightarrow> string list" where
  "split_char c [] = [[]]"
| "split_char c (x # xs) =
     (if x = c then [] # split_char c xs
      else (case split_char c xs of [] \<Rightarrow> [[x]] | p # ps \<Rightarrow> (x # p) # ps))"

text \<open>
  \<^verbatim>\<open>re.sub("[^0-9]", "", price.split(".")[0])\<close>: the text before the first dot, with
  every character that is not one of \<^verbatim>\<open>0\<close>..\<^verbatim>\<open>9\<close> deleted.
\<close>

definition price_conversion :: "string \<Rightarrow> string" where
  "price_conversion price = filter is_digit (hd (split_char CHR ''.'' price))"

text \<open>
  Called on a cell: \<^verbatim>\<open>price.split\<close> exists on strings only, so any other value raises
  \<^verbatim>\<open>AttributeError\<close>.
\<close>

fun price_conversion_val :: "pyval \<Rightarrow> error + string" where
  "price_conversion_val (PStr s) = Inr (price_conversion s)"
| "price_conversion_val v = Inl AttributeError"

section \<open>Batcher\<close>

text \<open>
  \<^verbatim>\<open>for i in range(0, len(lst), n): yield lst[i : i + n]\<close>. Every caller collects the
  generator with \<^verbatim>\<open>list(...)\<close>, so the model returns the list of the batches.
  \<^verbatim>\<open>range\<close> raises \<^verbatim>\<open>ValueError\<close> for step 0 and is empty for a negative step.
\<close>

function divide_from :: "'a list \<Rightarrow> nat \<Rightarrow> nat \<Rightarrow> 'a list list" where
  "divide_from lst n i =
     (if n = 0 \<or> length lst \<le> i then []
      else take n (drop i lst) # divide_from lst n (i + n))"
  by pat_completeness auto
termination
  by (relation "measure (\<lambda>(lst, n, i). length lst - i)") auto

declare divide_from.simps [simp del]

definition divide :: "'a list \<Rightarrow> int \<Rightarrow> error + 'a list list" where
  "divide lst n =
     (if n = 0 then Inl ValueError
      else if n < 0 then Inr []
      else Inr (divide_from lst (nat n) 0))"

section \<open>Data model\<close>

text \<open>
  One row of the supplier spreadsheet, a dictionary in the source. The fields stand for
  the columns the adapters read with \<^verbatim>\<open>watch.get\<close>: the product code, the display name,
  the raw price and the raw quantity.
\<close>

record inventory_row =
  row_code :: pyval
  row_name :: pyval
  row_price :: pyval
  row_quantity :: pyval

text \<open>The stock and price records of \<^verbatim>\<open>seller.py\<close>.\<close>

record seller_stock =
  offer_id :: string
  stock :: int

record seller_price =
  auto_action_enabled :: string
  currency_code :: string
  price_offer_id :: string
  old_price :: string
  price :: string

text \<open>The stock and price records of \<^verbatim>\<open>market.py\<close>.\<close>

record market_item =
  item_count :: int
  item_type :: string
  updatedAt :: string

record market_stock =
  sku :: string
  warehouseId :: string
  items :: "market_item list"

record market_price_body =
  price_value :: int
  currencyId :: string

record market_price =
  price_id :: string
  price_body :: market_price_body

text \<open>
  One page of the listing endpoint of each marketplace, as far as the fetchers read it.
  Offer identifiers are strings. An absent \<^verbatim>\<open>nextPageToken\<close> is \<^verbatim>\<open>None\<close>.
\<close>

record product =
  product_offer_id :: string

record product_page =
  page_items :: "product list"
  total :: int
  last_id :: string

record mapping_entry =
  shopSku :: string

record market_page =
  offerMappingEntries :: "mapping_entry list"
  nextPageToken :: "string option"

section \<open>Stock record builder\<close>

text \<open>
  The quantity policy, written out in both adapters: the sentinel \<^verbatim>\<open>">10"\<close> is 100,
  \<^verbatim>\<open>"1"\<close> is 0, everything else goes through \<^verbatim>\<open>int\<close>. The comparison is on
  \<^verbatim>\<open>str\<close> of the cell, the conversion on the cell itself.
\<close>

definition resolve_stock :: "pyval \<Rightarrow> error + int" where
  "resolve_stock q =
     (let count = py_str q
      in if count = ''>10'' then Inr 100
         else if count = ''1'' then Inr 0
         else py_int q)"

text \<open>
  \<^verbatim>\<open>create_stocks\<close> of \<^verbatim>\<open>seller.py\<close>. The list \<^verbatim>\<open>offer_ids\<close> is mutated in place
  (\<^verbatim>\<open>offer_ids.remove\<close> deletes the first occurrence), so the model returns it next to
  the result, also when an exception leaves the loop.
\<close>

fun seller_stocks_loop ::
  "inventory_row list \<Rightarrow> string list \<Rightarrow> seller_stock list
     \<Rightarrow> (error + seller_stock list) \<times> string list" where
  "seller_stocks_loop [] offer_ids stocks = (Inr stocks, offer_ids)"
| "seller_stocks_loop (watch # rest) offer_ids stocks =
     (if py_str (row_code watch) \<in> set offer_ids then
        (case resolve_stock (row_quantity watch) of
           Inl e \<Rightarrow> (Inl e, offer_ids)
         | Inr n \<Rightarrow>
             seller_stocks_loop rest (remove1 (py_str (row_code watch)) offer_ids)
               (stocks @ [\<lparr>offer_id = py_str (row_code watch), stock = n\<rparr>]))
      else seller_stocks_loop rest offer_ids stocks)"

definition seller_create_stocks ::
  "inventory_row list \<Rightarrow> string list \<Rightarrow> (error + seller_stock list) \<times> string list" where
  "seller_create_stocks watch_remnants offer_ids =
     (case seller_stocks_loop watch_remnants offer_ids [] of
        (Inl e, offer_ids') \<Rightarrow> (Inl e, offer_ids')
      | (Inr stocks, offer_ids') \<Rightarrow>
          (Inr (stocks @ map (\<lambda>i. \<lparr>offer_id = i, stock = 0\<rparr>) offer_ids'), offer_ids'))"

text \<open>
  \<^verbatim>\<open>create_stocks\<close> of \<^verbatim>\<open>market.py\<close>. The timestamp \<^verbatim>\<open>date\<close> is read from the clock
  once, before the loop; it is a parameter here.
\<close>

definition market_stock_record :: "string \<Rightarrow> string \<Rightarrow> string \<Rightarrow> int \<Rightarrow> market_stock" where
  "market_stock_record warehouse_id date s n =
     \<lparr>sku = s, warehouseId = warehouse_id,
      items = [\<lparr>item_count = n, item_type = ''FIT'', updatedAt = date\<rparr>]\<rparr>"

fun market_stocks_loop ::
  "string \<Rightarrow> string \<Rightarrow> inventory_row list \<Rightarrow> string list \<Rightarrow> market_stock list
     \<Rightarrow> (error + market_stock list) \<times> string list" where
  "market_stocks_loop warehouse_id date [] offer_ids stocks = (Inr stocks, offer_ids)"
| "market_stocks_loop warehouse_id date (watch # rest) offer_ids stocks =
     (if py_str (row_code watch) \<in> set offer_ids then
        (case resolve_stock (row_quantity watch) of
           Inl e \<Rightarrow> (Inl e, offer_ids)
         | Inr n \<Rightarrow>
             market_stocks_loop warehouse_id date rest
               (remove1 (py_str (row_code watch)) offer_ids)
               (stocks @ [market_stock_record warehouse_id date (py_str (row_code watch)) n]))
      else market_stocks_loop warehouse_id date rest offer_ids stocks)"

definition market_create_stocks ::
  "string \<Rightarrow> string \<Rightarrow> inventory_row list \<Rightarrow> string list
     \<Rightarrow> (error + market_stock list) \<times> string list" where
  "market_create_stocks warehouse_id date watch_remnants offer_ids =
     (case market_stocks_loop warehouse_id date watch_remnants offer_ids [] of
        (Inl e, offer_ids') \<Rightarrow> (Inl e, offer_ids')
      | (Inr stocks, offer_ids') \<Rightarrow>
          (Inr (stocks @ map (\<lambda>i. market_stock_record warehouse_id date i 0) offer_ids'),
           offer_ids'))"

section \<open>Price record builder\<close>

text \<open>
  \<^verbatim>\<open>create_prices\<close> of \<^verbatim>\<open>seller.py\<close>: the price field is the normalized string itself.
  The list of offer ids is returned as the function leaves it.
\<close>

fun seller_prices_loop ::
  "inventory_row list \<Rightarrow> string list \<Rightarrow> seller_price list
     \<Rightarrow> (error + seller_price list) \<times> string list" where
  "seller_prices_loop [] offer_ids prices = (Inr prices, offer_ids)"
| "seller_prices_loop (watch # rest) offer_ids prices =
     (if py_str (row_code watch) \<in> set offer_ids then
        (case price_conversion_val (row_price watch) of
           Inl e \<Rightarrow> (Inl e, offer_ids)
         | Inr p \<Rightarrow>
             seller_prices_loop rest offer_ids
               (prices @ [\<lparr>auto_action_enabled = ''UNKNOWN'', currency_code = ''RUB'',
                           price_offer_id = py_str (row_code watch), old_price = ''0'',
                           price = p\<rparr>]))
      else seller_prices_loop rest offer_ids prices)"

definition seller_create_prices ::
  "inventory_row list \<Rightarrow> string list \<Rightarrow> (error + seller_price list) \<times> string list" where
  "seller_create_prices watch_remnants offer_ids =
     seller_prices_loop watch_remnants offer_ids []"

text \<open>
  \<^verbatim>\<open>create_prices\<close> of \<^verbatim>\<open>market.py\<close>: the normalized string is parsed with \<^verbatim>\<open>int\<close>.
\<close>

definition market_price_of :: "pyval \<Rightarrow> error + int" where
  "market_price_of v =
     (case price_conversion_val v of Inl e \<Rightarrow> Inl e | Inr p \<Rightarrow> int_of_str p)"

fun market_prices_loop ::
  "inventory_row list \<Rightarrow> string list \<Rightarrow> market_price list
     \<Rightarrow> (error + market_price list) \<times> string list" where
  "market_prices_loop [] offer_ids prices = (Inr prices, offer_ids)"
| "market_prices_loop (watch # rest) offer_ids prices =
     (if py_str (row_code watch) \<in> set offer_ids then
        (case market_price_of (row_price watch) of
           Inl e \<Rightarrow> (Inl e, offer_ids)
         | Inr v \<Rightarrow>
             market_prices_loop rest offer_ids
               (prices @ [\<lparr>price_id = py_str (row_code watch),
                           price_body = \<lparr>price_value = v, currencyId = ''RUR''\<rparr>\<rparr>]))
      else market_prices_loop rest offer_ids prices)"

definition market_create_prices ::
  "inventory_row list \<Rightarrow> string list \<Rightarrow> (error + market_price list) \<times> string list" where
  "market_create_prices watch_remnants offer_ids =
     market_prices_loop watch_remnants offer_ids []"

section \<open>Offer-id fetcher\<close>

text \<open>
  The listing endpoint is outside the program: \<^verbatim>\<open>get_product_list\<close> is a parameter
  that answers the \<open>k\<close>-th request, made with a given cursor, by a page or by the transport
  error that \<^verbatim>\<open>raise_for_status\<close> or the connection raises. The \<^verbatim>\<open>while True\<close> loop
  need not end, so the loops are partial functions: \<^verbatim>\<open>None\<close> is a run that never returns.
\<close>

partial_function (option) seller_fetch_loop ::
  "(nat \<Rightarrow> string \<Rightarrow> error + product_page) \<Rightarrow> nat \<Rightarrow> string \<Rightarrow> product list
     \<Rightarrow> (error + product list) option" where
  "seller_fetch_loop get_product_list k cursor product_list =
     (case get_product_list k cursor of
        Inl e \<Rightarrow> Some (Inl e)
      | Inr some_prod \<Rightarrow>
          (if total some_prod = int (length (product_list @ page_items some_prod))
           then Some (Inr (product_list @ page_items some_prod))
           else seller_fetch_loop get_product_list (Suc k) (last_id some_prod)
                  (product_list @ page_items some_prod)))"

definition seller_get_offer_ids ::
  "(nat \<Rightarrow> string \<Rightarrow> error + product_page) \<Rightarrow> (error + string list) option" where
  "seller_get_offer_ids get_product_list =
     (case seller_fetch_loop get_product_list 0 [] [] of
        None \<Rightarrow> None
      | Some (Inl e) \<Rightarrow> Some (Inl e)
      | Some (Inr product_list) \<Rightarrow> Some (Inr (map product_offer_id product_list)))"

text \<open>\<^verbatim>\<open>not page\<close> holds for \<^verbatim>\<open>None\<close> and for the empty string.\<close>

definition not_page :: "string option \<Rightarrow> bool" where
  "not_page page = (case page of None \<Rightarrow> True | Some t \<Rightarrow> t = [])"

partial_function (option) market_fetch_loop ::
  "(nat \<Rightarrow> string option \<Rightarrow> error + market_page) \<Rightarrow> nat \<Rightarrow> string option
     \<Rightarrow> mapping_entry list \<Rightarrow> (error + mapping_entry list) option" where
  "market_fetch_loop get_product_list k page product_list =
     (case get_product_list k page of
        Inl e \<Rightarrow> Some (Inl e)
      | Inr some_prod \<Rightarrow>
          (if not_page (nextPageToken some_prod)
           then Some (Inr (product_list @ offerMappingEntries some_prod))
           else market_fetch_loop get_product_list (Suc k) (nextPageToken some_prod)
                  (product_list @ offerMappingEntries some_prod)))"

definition market_get_offer_ids ::
  "(nat \<Rightarrow> string option \<Rightarrow> error + market_page) \<Rightarrow> (error + string list) option" where
  "market_get_offer_ids get_product_list =
     (case market_fetch_loop get_product_list 0 (Some []) [] of
        None \<Rightarrow> None
      | Some (Inl e) \<Rightarrow> Some (Inl e)
      | Some (Inr product_list) \<Rightarrow> Some (Inr (map shopSku product_list)))"

section \<open>Upload orchestrator of \<^verbatim>\<open>seller.py\<close>\<close>

text \<open>
  \<^verbatim>\<open>main\<close> of \<^verbatim>\<open>seller.py\<close>, from the point where the offer ids and the spreadsheet
  rows have been fetched. What it does is the sequence of write calls, each with its
  batch, and the exception caught by the \<^verbatim>\<open>try\<close> block if one was raised. The write
  endpoints themselves are taken to answer. The list \<^verbatim>\<open>offer_ids\<close> that
  \<^verbatim>\<open>create_prices\<close> receives is the object \<^verbatim>\<open>create_stocks\<close> has worked on.
\<close>

datatype seller_call = Update_stocks "seller_stock list" | Update_price "seller_price list"

definition seller_main ::
  "string list \<Rightarrow> inventory_row list \<Rightarrow> seller_call list \<times> error option" where
  "seller_main offer_ids watch_remnants =
     (case seller_create_stocks watch_remnants offer_ids of
        (Inl e, offer_ids') \<Rightarrow> ([], Some e)
      | (Inr stocks, offer_ids') \<Rightarrow>
          (case divide stocks 100 of
             Inl e \<Rightarrow> ([], Some e)
           | Inr stock_batches \<Rightarrow>
               (case seller_create_prices watch_remnants offer_ids' of
                  (Inl e, offer_ids'') \<Rightarrow> (map Update_stocks stock_batches, Some e)
                | (Inr prices, offer_ids'') \<Rightarrow>
                    (case divide prices 900 of
                       Inl e \<Rightarrow> (map Update_stocks stock_batches, Some e)
                     | Inr price_batches \<Rightarrow>
                         (map Update_stocks stock_batches @ map Update_price price_batches,
                          None)))))"

text \<open>
  The price list that \<^verbatim>\<open>main\<close> builds, and the one that \<^verbatim>\<open>upload_prices\<close> of the
  same file builds from a list of offer ids fetched for it alone.
\<close>

definition seller_main_prices ::
  "string list \<Rightarrow> inventory_row list \<Rightarrow> error + seller_price list" where
  "seller_main_prices offer_ids watch_remnants =
     (case seller_create_stocks watch_remnants offer_ids of
        (Inl e, offer_ids') \<Rightarrow> Inl e
      | (Inr stocks, offer_ids') \<Rightarrow> fst (seller_create_prices watch_remnants offer_ids'))"

definition seller_upload_prices ::
  "string list \<Rightarrow> inventory_row list \<Rightarrow> error + seller_price list" where
  "seller_upload_prices offer_ids watch_remnants =
     fst (seller_create_prices watch_remnants offer_ids)"

section \<open>Notions used to state the properties\<close>

text \<open>The key of a row: \<^verbatim>\<open>str(watch.get(...))\<close> of its product code.\<close>

abbreviation row_key :: "inventory_row \<Rightarrow> string" where
  "row_key w \<equiv> py_str (row_code w)"

text \<open>
  The two stock loops differ in the record they append only, and so do the two price
  loops (there also in how the price cell is converted). The loops below take the record
  constructor and the conversion as arguments; each loop of the adapters is an instance,
  which is proved before anything else is.
\<close>

fun stocks_loop ::
  "(string \<Rightarrow> int \<Rightarrow> 'r) \<Rightarrow> inventory_row list \<Rightarrow> string list \<Rightarrow> 'r list
     \<Rightarrow> (error + 'r list) \<times> string list" where
  "stocks_loop mk [] ids acc = (Inr acc, ids)"
| "stocks_loop mk (w # ws) ids acc =
     (if row_key w \<in> set ids then
        (case resolve_stock (row_quantity w) of
           Inl e \<Rightarrow> (Inl e, ids)
         | Inr n \<Rightarrow> stocks_loop mk ws (remove1 (row_key w) ids) (acc @ [mk (row_key w) n]))
      else stocks_loop mk ws ids acc)"

fun prices_loop ::
  "(pyval \<Rightarrow> error + 'v) \<Rightarrow> (string \<Rightarrow> 'v \<Rightarrow> 'r) \<Rightarrow> inventory_row list \<Rightarrow> string list
     \<Rightarrow> 'r list \<Rightarrow> (error + 'r list) \<times> string list" where
  "prices_loop conv mk [] ids acc = (Inr acc, ids)"
| "prices_loop conv mk (w # ws) ids acc =
     (if row_key w \<in> set ids then
        (case conv (row_price w) of
           Inl e \<Rightarrow> (Inl e, ids)
         | Inr v \<Rightarrow> prices_loop conv mk ws ids (acc @ [mk (row_key w) v]))
      else prices_loop conv mk ws ids acc)"

definition seller_price_record :: "string \<Rightarrow> string \<Rightarrow> seller_price" where
  "seller_price_record c p =
     \<lparr>auto_action_enabled = ''UNKNOWN'', currency_code = ''RUB'', price_offer_id = c,
      old_price = ''0'', price = p\<rparr>"

definition market_price_record :: "string \<Rightarrow> int \<Rightarrow> market_price" where
  "market_price_record c v =
     \<lparr>price_id = c, price_body = \<lparr>price_value = v, currencyId = ''RUR''\<rparr>\<rparr>"

text \<open>
  The working list of offer ids when the stock loop reaches row \<open>j\<close> without an
  exception: every row before \<open>j\<close> has taken one occurrence of its key out of the list,
  if there was one. Row \<open>j\<close> is matched when its key is in this list, and it resolves
  when its quantity gives a count.
\<close>

definition working_ids :: "inventory_row list \<Rightarrow> string list \<Rightarrow> nat \<Rightarrow> string list" where
  "working_ids rows ids j = fold remove1 (map row_key (take j rows)) ids"

definition matched_at :: "inventory_row list \<Rightarrow> string list \<Rightarrow> nat \<Rightarrow> bool" where
  "matched_at rows ids j = (row_key (rows ! j) \<in> set (working_ids rows ids j))"

definition resolves :: "inventory_row \<Rightarrow> bool" where
  "resolves w = (case resolve_stock (row_quantity w) of Inl e \<Rightarrow> False | Inr n \<Rightarrow> True)"

text \<open>The elements of a list in the order of their first occurrence.\<close>

function first_occurrences :: "'a list \<Rightarrow> 'a list" where
  "first_occurrences [] = []"
| "first_occurrences (x # xs) = x # first_occurrences (removeAll x xs)"
  by pat_completeness auto
termination
  by (relation "measure length") (auto simp: less_Suc_eq_le)

section \<open>The rows of the docstring examples\<close>

text \<open>
  The price of the example row in the docstrings, \<^verbatim>\<open>5'990.00\<close> followed by a blank, a
  currency word and a dot. The letters of the word in the docstring have code points
  above 255; six characters above 127 stand for them here.
\<close>

definition example_price :: string where
  "example_price =
     ''5'' @ [CHR 0x27] @ ''990.00 '' @ [CHR 0xD1, CHR 0x80, CHR 0xD1, CHR 0x83, CHR 0xD0, CHR 0xB1]
       @ ''.''"

text \<open>A row with the given code cell, price string and quantity string.\<close>

definition example_row :: "pyval \<Rightarrow> string \<Rightarrow> string \<Rightarrow> inventory_row" where
  "example_row c p q =
     \<lparr>row_code = c, row_name = PStr ''Watch_1'', row_price = PStr p, row_quantity = PStr q\<rparr>"

section \<open>Runs of the fetcher\<close>

text \<open>
  A run of a fetcher is described by the pages \<open>pgs\<close> it receives, in order. The
  \<open>k\<close>-th request carries the cursor taken from the page before it (the empty string for
  the first request); a page signals the end when its reported total is the number of
  items accumulated so far (\<^verbatim>\<open>seller.py\<close>), or when it has no next-page token
  (\<^verbatim>\<open>market.py\<close>).
\<close>

definition seller_cursor :: "product_page list \<Rightarrow> nat \<Rightarrow> string" where
  "seller_cursor pgs k = (if k = 0 then [] else last_id (pgs ! (k - 1)))"

definition seller_done :: "product_page list \<Rightarrow> nat \<Rightarrow> bool" where
  "seller_done pgs k =
     (total (pgs ! k) = int (length (concat (map page_items (take (Suc k) pgs)))))"

definition market_cursor :: "market_page list \<Rightarrow> nat \<Rightarrow> string option" where
  "market_cursor pgs k = (if k = 0 then Some [] else nextPageToken (pgs ! (k - 1)))"

definition market_done :: "market_page list \<Rightarrow> nat \<Rightarrow> bool" where
  "market_done pgs k = not_page (nextPageToken (pgs ! k))"

text \<open>
  Two listing endpoints for examples: each answers the first request by a page with one
  offer and the second, made with the cursor of the first page, by a last page with one
  more offer; every other request fails.
\<close>

definition example_seller_pages :: "product_page list" where
  "example_seller_pages =
     [\<lparr>page_items = [\<lparr>product_offer_id = ''101''\<rparr>], total = 2, last_id = ''a''\<rparr>,
      \<lparr>page_items = [\<lparr>product_offer_id = ''102''\<rparr>], total = 2, last_id = ''b''\<rparr>]"

definition example_seller_api :: "nat \<Rightarrow> string \<Rightarrow> error + product_page" where
  "example_seller_api k cursor =
     (if k = 0 \<and> cursor = [] then Inr (example_seller_pages ! 0)
      else if k = 1 \<and> cursor = ''a'' then Inr (example_seller_pages ! 1)
      else Inl HTTPError)"

definition example_market_pages :: "market_page list" where
  "example_market_pages =
     [\<lparr>offerMappingEntries = [\<lparr>shopSku = ''101''\<rparr>], nextPageToken = Some ''t1''\<rparr>,
      \<lparr>offerMappingEntries = [\<lparr>shopSku = ''102''\<rparr>], nextPageToken = None\<rparr>]"

definition example_market_api :: "nat \<Rightarrow> string option \<Rightarrow> error + market_page" where
  "example_market_api k page =
     (if k = 0 \<and> page = Some [] then Inr (example_market_pages ! 0)
      else if k = 1 \<and> page = Some ''t1'' then Inr (example_market_pages ! 1)
      else Inl HTTPError)"

text \<open>An endpoint whose first page is fine and whose second request fails.\<close>

definition failing_seller_api :: "nat \<Rightarrow> string \<Rightarrow> error + product_page" where
  "failing_seller_api k cursor =
     (if k = 0 \<and> cursor = [] then Inr (example_seller_pages ! 0) else Inl ConnectionError)"

section \<open>Properties of the builtins\<close>

lemma split_char_nonempty: "split_char c s \<noteq> []"
  by (induction s) (auto split: list.splits)

lemma hd_split_char: "hd (split_char c s) = takeWhile (\<lambda>x. x \<noteq> c) s"
proof (induction s)
  case Nil
  show ?case by simp
next
  case (Cons x xs)
  then show ?case
    using split_char_nonempty [of c xs] by (auto split: list.splits)
qed

section \<open>Price normalizer: properties\<close>

lemma is_digit_not_dot: "is_digit c \<Longrightarrow> c \<noteq> CHR ''.''"
  by (auto simp: is_digit_def)

lemma price_conversion_takeWhile:
  "price_conversion s = filter is_digit (takeWhile (\<lambda>c. c \<noteq> CHR ''.'') s)"
  by (simp add: price_conversion_def hd_split_char)

lemma price_conversion_all_digits: "list_all is_digit (price_conversion s)"
  by (simp add: price_conversion_takeWhile list_all_iff)

lemma price_conversion_fixed:
  assumes "list_all is_digit s"
  shows "price_conversion s = s"
proof -
  have "\<forall>c\<in>set s. c \<noteq> CHR ''.''"
    using assms is_digit_not_dot by (auto simp: list_all_iff)
  then have "takeWhile (\<lambda>c. c \<noteq> CHR ''.'') s = s"
    by (rule takeWhile_eq_all_conv [THEN iffD2])
  moreover have "filter is_digit s = s"
    using assms by (simp add: list_all_iff)
  ultimately show ?thesis
    by (simp only: price_conversion_takeWhile)
qed

text \<open>
  Claim C8. For every input string, price normalization returns exactly the digit
  characters of the text before the first dot: the result is the digits of that prefix in
  their order, it holds digits only, it is empty when the prefix has no digit, a string of
  digits is returned as it is (so normalizing twice is normalizing once), and
  \<^verbatim>\<open>"5990"\<close> normalizes to \<^verbatim>\<open>"5990"\<close>.
\<close>

theorem price_conversion_spec:
  "price_conversion s = filter is_digit (takeWhile (\<lambda>c. c \<noteq> CHR ''.'') s)
   \<and> list_all is_digit (price_conversion s)
   \<and> ((\<forall>c \<in> set (takeWhile (\<lambda>c. c \<noteq> CHR ''.'') s). \<not> is_digit c) \<longrightarrow> price_conversion s = [])
   \<and> (list_all is_digit s \<longrightarrow> price_conversion s = s)
   \<and> price_conversion (price_conversion s) = price_conversion s
   \<and> price_conversion ''5990'' = ''5990''"
proof -
  have a: "(\<forall>c \<in> set (takeWhile (\<lambda>c. c \<noteq> CHR ''.'') s). \<not> is_digit c) \<longrightarrow> price_conversion s = []"
    by (simp add: price_conversion_takeWhile filter_empty_conv)
  have b: "price_conversion ''5990'' = ''5990''"
    by (rule price_conversion_fixed) (simp add: is_digit_def)
  show ?thesis
    using a b price_conversion_takeWhile [of s] price_conversion_all_digits [of s]
      price_conversion_fixed [of s] price_conversion_fixed [OF price_conversion_all_digits [of s]]
    by blast
qed

theorem price_conversion_spec_witness:
  "price_conversion example_price = ''5990'' \<and> price_conversion ''price'' = []
   \<and> price_conversion ''5990'' = ''5990''"
  using price_conversion_spec [of example_price] price_conversion_spec [of "''price''"]
  by (simp add: is_digit_def example_price_def)

section \<open>Batcher: properties\<close>

lemma divide_from_stop [simp]: "length lst \<le> i \<Longrightarrow> divide_from lst n i = []"
  by (subst divide_from.simps) simp

lemma divide_from_step [simp]:
  "0 < n \<Longrightarrow> i < length lst
     \<Longrightarrow> divide_from lst n i = take n (drop i lst) # divide_from lst n (i + n)"
  by (subst divide_from.simps) simp

lemma concat_divide_from: "0 < n \<Longrightarrow> concat (divide_from lst n i) = drop i lst"
proof (induction lst n i rule: divide_from.induct)
  case (1 lst n i)
  show ?case
  proof (cases "length lst \<le> i")
    case True
    then show ?thesis by simp
  next
    case False
    with 1 have "concat (divide_from lst n (i + n)) = drop (i + n) lst" by simp
    moreover have "take n (drop i lst) @ drop (i + n) lst = drop i lst"
      by (metis add.commute append_take_drop_id drop_drop)
    ultimately show ?thesis using False 1(2) by simp
  qed
qed

lemma divide_from_batches:
  "0 < n \<Longrightarrow> b \<in> set (divide_from lst n i) \<Longrightarrow> b \<noteq> [] \<and> length b \<le> n"
proof (induction lst n i rule: divide_from.induct)
  case (1 lst n i)
  show ?case
  proof (cases "length lst \<le> i")
    case True
    with 1(3) show ?thesis by simp
  next
    case False
    with 1(3) 1(2) have "b = take n (drop i lst) \<or> b \<in> set (divide_from lst n (i + n))"
      by simp
    then show ?thesis
    proof
      assume "b = take n (drop i lst)"
      with False 1(2) show ?thesis by auto
    next
      assume "b \<in> set (divide_from lst n (i + n))"
      with 1 False show ?thesis by simp
    qed
  qed
qed

lemma divide_from_full:
  "0 < n \<Longrightarrow> b \<in> set (butlast (divide_from lst n i)) \<Longrightarrow> length b = n"
proof (induction lst n i rule: divide_from.induct)
  case (1 lst n i)
  show ?case
  proof (cases "length lst \<le> i")
    case True
    with 1(3) show ?thesis by simp
  next
    case False
    show ?thesis
    proof (cases "divide_from lst n (i + n) = []")
      case True
      with 1(3) 1(2) False show ?thesis by simp
    next
      case ne: False
      have more: "i + n < length lst"
      proof (rule ccontr)
        assume "\<not> i + n < length lst"
        then have "divide_from lst n (i + n) = []" by simp
        with ne show False by simp
      qed
      from ne 1(3) 1(2) False
      have "b = take n (drop i lst) \<or> b \<in> set (butlast (divide_from lst n (i + n)))"
        by simp
      then show ?thesis
      proof
        assume "b = take n (drop i lst)"
        with more show ?thesis by simp
      next
        assume "b \<in> set (butlast (divide_from lst n (i + n)))"
        with 1 False show ?thesis by simp
      qed
    qed
  qed
qed

lemma divide_from_nth:
  "0 < n \<Longrightarrow> k < length (divide_from lst n i)
     \<Longrightarrow> divide_from lst n i ! k = take n (drop (i + k * n) lst)"
proof (induction lst n i arbitrary: k rule: divide_from.induct)
  case (1 lst n i)
  show ?case
  proof (cases "length lst \<le> i")
    case True
    with 1(3) show ?thesis by simp
  next
    case False
    show ?thesis
    proof (cases k)
      case 0
      with False 1(2) show ?thesis by simp
    next
      case (Suc j)
      with 1(3) False 1(2) have "j < length (divide_from lst n (i + n))" by simp
      with 1(1) [of j] False 1(2)
      have "divide_from lst n (i + n) ! j = take n (drop (i + n + j * n) lst)" by simp
      with Suc False 1(2) show ?thesis by (simp add: add.assoc)
    qed
  qed
qed

text \<open>
  Claim C7. For every chunk size \<open>n > 0\<close> and every list \<open>S\<close> the batcher returns
  finitely many batches whose concatenation is \<open>S\<close>; every batch is non-empty and has
  at most \<open>n\<close> elements, every batch but the last has exactly \<open>n\<close>, and the
  \<open>k\<close>-th batch is the slice of \<open>S\<close> that starts at \<open>k * n\<close>, so the batches are
  contiguous, in order and do not overlap.
\<close>

theorem divide_batches:
  assumes "0 < n"
  shows "\<exists>bs. divide S n = Inr bs \<and> concat bs = S
            \<and> (\<forall>b \<in> set bs. b \<noteq> [] \<and> int (length b) \<le> n)
            \<and> (\<forall>b \<in> set (butlast bs). int (length b) = n)
            \<and> (\<forall>k < length bs. bs ! k = take (nat n) (drop (k * nat n) S))"
proof -
  let ?m = "nat n"
  let ?bs = "divide_from S ?m 0"
  from assms have m: "0 < ?m" by simp
  have d: "divide S n = Inr ?bs" using assms by (simp add: divide_def)
  have c: "concat ?bs = S" using concat_divide_from [OF m, of S 0] by simp
  have l: "\<forall>b \<in> set ?bs. b \<noteq> [] \<and> int (length b) \<le> n"
    using divide_from_batches [OF m] assms by fastforce
  have f: "\<forall>b \<in> set (butlast ?bs). int (length b) = n"
    using divide_from_full [OF m] assms by fastforce
  have k: "\<forall>k < length ?bs. ?bs ! k = take ?m (drop (k * ?m) S)"
    using divide_from_nth [OF m, of _ S 0] by simp
  from d c l f k show ?thesis by blast
qed

theorem divide_batches_witness:
  "(0::int) < 2 \<and> divide [1, 2, 3, 4, 5 :: nat] 2 = Inr [[1, 2], [3, 4], [5]]
   \<and> (\<exists>bs. divide [1, 2, 3, 4, 5 :: nat] 2 = Inr bs \<and> concat bs = [1, 2, 3, 4, 5]
          \<and> (\<forall>b \<in> set bs. b \<noteq> [] \<and> int (length b) \<le> 2))"
proof -
  have pos: "(0::int) < 2" by simp
  have ev: "divide [1, 2, 3, 4, 5 :: nat] 2 = Inr [[1, 2], [3, 4], [5]]" by code_simp
  from divide_batches [OF pos, of "[1, 2, 3, 4, 5 :: nat]"] pos ev show ?thesis by blast
qed

section \<open>The loops of the adapters are instances of the common loops\<close>

lemma seller_stocks_loop_eq:
  "seller_stocks_loop rows ids acc = stocks_loop (\<lambda>c n. \<lparr>offer_id = c, stock = n\<rparr>) rows ids acc"
  by (induction rows arbitrary: ids acc) (auto split: sum.splits)

lemma market_stocks_loop_eq:
  "market_stocks_loop wid date rows ids acc =
     stocks_loop (market_stock_record wid date) rows ids acc"
  by (induction rows arbitrary: ids acc) (auto split: sum.splits)

lemma seller_prices_loop_eq:
  "seller_prices_loop rows ids acc =
     prices_loop price_conversion_val seller_price_record rows ids acc"
  by (induction rows arbitrary: ids acc) (auto split: sum.splits simp: seller_price_record_def)

lemma market_prices_loop_eq:
  "market_prices_loop rows ids acc =
     prices_loop market_price_of market_price_record rows ids acc"
  by (induction rows arbitrary: ids acc) (auto split: sum.splits simp: market_price_record_def)

section \<open>The stock loop and the working list of offer ids\<close>

lemma stocks_loop_append:
  "stocks_loop mk (xs @ ys) ids acc =
     (case stocks_loop mk xs ids acc of
        (Inl e, ids1) \<Rightarrow> (Inl e, ids1)
      | (Inr acc1, ids1) \<Rightarrow> stocks_loop mk ys ids1 acc1)"
  by (induction xs arbitrary: ids acc) (auto split: sum.splits)

lemma stocks_loop_acc:
  "stocks_loop mk rows ids acc = (Inr st, ids') \<Longrightarrow> \<exists>new. st = acc @ new"
proof (induction rows arbitrary: ids acc)
  case Nil
  then show ?case by simp
next
  case (Cons w ws)
  show ?case
  proof (cases "row_key w \<in> set ids")
    case False
    with Cons show ?thesis by simp
  next
    case True
    with Cons.prems obtain n where n: "resolve_stock (row_quantity w) = Inr n"
      by (auto split: sum.splits)
    with True Cons.prems
    have "stocks_loop mk ws (remove1 (row_key w) ids) (acc @ [mk (row_key w) n]) = (Inr st, ids')"
      by simp
    from Cons.IH [OF this] show ?thesis by auto
  qed
qed

text \<open>Whatever happens, the working list loses one occurrence per row consumed.\<close>

lemma stocks_loop_ids_ok:
  "stocks_loop mk rows ids acc = (Inr st, ids') \<Longrightarrow> ids' = fold remove1 (map row_key rows) ids"
proof (induction rows arbitrary: ids acc)
  case Nil
  then show ?case by simp
next
  case (Cons w ws)
  show ?case
  proof (cases "row_key w \<in> set ids")
    case False
    then have "remove1 (row_key w) ids = ids" by (simp add: remove1_idem)
    with False Cons show ?thesis by simp
  next
    case True
    with Cons.prems obtain n where n: "resolve_stock (row_quantity w) = Inr n"
      by (auto split: sum.splits)
    with True Cons.prems
    have "stocks_loop mk ws (remove1 (row_key w) ids) (acc @ [mk (row_key w) n]) = (Inr st, ids')"
      by simp
    from Cons.IH [OF this] show ?thesis by simp
  qed
qed

lemma stocks_loop_ids_err:
  "stocks_loop mk rows ids acc = (Inl e, ids') \<Longrightarrow>
     \<exists>k < length rows. ids' = fold remove1 (map row_key (take k rows)) ids
        \<and> row_key (rows ! k) \<in> set ids' \<and> resolve_stock (row_quantity (rows ! k)) = Inl e"
proof (induction rows arbitrary: ids acc)
  case Nil
  then show ?case by simp
next
  case (Cons w ws)
  show ?case
  proof (cases "row_key w \<in> set ids")
    case False
    then have same: "remove1 (row_key w) ids = ids" by (simp add: remove1_idem)
    from False Cons.prems have "stocks_loop mk ws ids acc = (Inl e, ids')" by simp
    from Cons.IH [OF this] obtain k where k: "k < length ws"
      "ids' = fold remove1 (map row_key (take k ws)) ids"
      "row_key (ws ! k) \<in> set ids'" "resolve_stock (row_quantity (ws ! k)) = Inl e"
      by blast
    then have "Suc k < length (w # ws) \<and> ids' = fold remove1 (map row_key (take (Suc k) (w # ws))) ids
        \<and> row_key ((w # ws) ! Suc k) \<in> set ids'
        \<and> resolve_stock (row_quantity ((w # ws) ! Suc k)) = Inl e"
      using same by simp
    then show ?thesis by blast
  next
    case True
    show ?thesis
    proof (cases "resolve_stock (row_quantity w)")
      case (Inl e')
      with True Cons.prems have "e' = e" "ids' = ids" by auto
      with Inl True have "0 < length (w # ws) \<and> ids' = fold remove1 (map row_key (take 0 (w # ws))) ids
        \<and> row_key ((w # ws) ! 0) \<in> set ids'
        \<and> resolve_stock (row_quantity ((w # ws) ! 0)) = Inl e"
        by simp
      then show ?thesis by blast
    next
      case (Inr n)
      with True Cons.prems
      have "stocks_loop mk ws (remove1 (row_key w) ids) (acc @ [mk (row_key w) n]) = (Inl e, ids')"
        by simp
      from Cons.IH [OF this] obtain k where k: "k < length ws"
        "ids' = fold remove1 (map row_key (take k ws)) (remove1 (row_key w) ids)"
        "row_key (ws ! k) \<in> set ids'" "resolve_stock (row_quantity (ws ! k)) = Inl e"
        by blast
      then have "Suc k < length (w # ws) \<and> ids' = fold remove1 (map row_key (take (Suc k) (w # ws))) ids
        \<and> row_key ((w # ws) ! Suc k) \<in> set ids'
        \<and> resolve_stock (row_quantity ((w # ws) ! Suc k)) = Inl e"
        by simp
      then show ?thesis by blast
    qed
  qed
qed

lemma mset_fold_remove1: "mset (fold remove1 cs ids) = mset ids - mset cs"
  by (induction cs arbitrary: ids) (simp_all add: multiset_eq_iff)

lemma subseq_remove1: "subseq (remove1 c ids) ids"
  by (induction ids) auto

lemma subseq_fold_remove1: "subseq (fold remove1 cs ids) ids"
proof (induction cs arbitrary: ids)
  case Nil
  show ?case by simp
next
  case (Cons c cs)
  have "subseq (fold remove1 cs (remove1 c ids)) (remove1 c ids)" by (rule Cons.IH)
  then show ?case using subseq_remove1 [of c ids] by (auto intro: subseq_order.trans)
qed

lemma fold_remove1_distinct:
  "distinct ids \<Longrightarrow> fold remove1 cs ids = filter (\<lambda>i. i \<notin> set cs) ids"
proof (induction cs arbitrary: ids)
  case Nil
  show ?case by simp
next
  case (Cons c cs)
  have "remove1 c ids = filter (\<lambda>i. i \<noteq> c) ids"
    using Cons.prems by (simp add: distinct_remove1_removeAll removeAll_filter_not_eq) (metis)
  moreover have "distinct (remove1 c ids)" using Cons.prems by simp
  ultimately show ?case using Cons.IH [of "remove1 c ids"] by (auto intro: filter_cong)
qed

section \<open>Frame: what the builders do to the list of offer ids\<close>

lemma seller_create_stocks_Inr:
  "seller_create_stocks rows ids = (Inr st, ids') \<longleftrightarrow>
     (\<exists>st0. stocks_loop (\<lambda>c n. \<lparr>offer_id = c, stock = n\<rparr>) rows ids [] = (Inr st0, ids')
        \<and> st = st0 @ map (\<lambda>i. \<lparr>offer_id = i, stock = 0\<rparr>) ids')"
  by (auto simp: seller_create_stocks_def seller_stocks_loop_eq split: prod.splits sum.splits)

lemma seller_create_stocks_Inl:
  "seller_create_stocks rows ids = (Inl e, ids') \<longleftrightarrow>
     stocks_loop (\<lambda>c n. \<lparr>offer_id = c, stock = n\<rparr>) rows ids [] = (Inl e, ids')"
  by (auto simp: seller_create_stocks_def seller_stocks_loop_eq split: prod.splits sum.splits)

lemma market_create_stocks_Inr:
  "market_create_stocks wid date rows ids = (Inr st, ids') \<longleftrightarrow>
     (\<exists>st0. stocks_loop (market_stock_record wid date) rows ids [] = (Inr st0, ids')
        \<and> st = st0 @ map (\<lambda>i. market_stock_record wid date i 0) ids')"
  by (auto simp: market_create_stocks_def market_stocks_loop_eq split: prod.splits sum.splits)

lemma market_create_stocks_Inl:
  "market_create_stocks wid date rows ids = (Inl e, ids') \<longleftrightarrow>
     stocks_loop (market_stock_record wid date) rows ids [] = (Inl e, ids')"
  by (auto simp: market_create_stocks_def market_stocks_loop_eq split: prod.splits sum.splits)

lemma prices_loop_ids: "snd (prices_loop conv mk rows ids acc) = ids"
  by (induction rows arbitrary: acc) (auto split: sum.splits)

section \<open>Stock record builder: the batch\<close>

lemma set_first_occurrences [simp]: "set (first_occurrences xs) = set xs"
  by (induction xs rule: first_occurrences.induct) auto

lemma distinct_first_occurrences [simp]: "distinct (first_occurrences xs)"
  by (induction xs rule: first_occurrences.induct) auto

lemma first_occurrences_filter_Cons:
  assumes "P c"
  shows "first_occurrences (filter P (c # cs))
           = c # first_occurrences (filter (\<lambda>x. P x \<and> x \<noteq> c) cs)"
proof -
  have "removeAll c (filter P cs) = filter (\<lambda>x. P x \<and> x \<noteq> c) cs"
    by (induction cs) auto
  with assms show ?thesis by simp
qed

lemma stocks_loop_keys:
  assumes "\<forall>c n. key (mk c n) = c"
  shows "distinct ids \<Longrightarrow> stocks_loop mk rows ids acc = (Inr st, ids') \<Longrightarrow>
           map key st = map key acc @ first_occurrences (filter (\<lambda>c. c \<in> set ids) (map row_key rows))"
proof (induction rows arbitrary: ids acc)
  case Nil
  then show ?case by simp
next
  case (Cons w ws)
  show ?case
  proof (cases "row_key w \<in> set ids")
    case False
    with Cons show ?thesis by simp
  next
    case True
    with Cons.prems obtain n where n: "resolve_stock (row_quantity w) = Inr n"
      by (auto split: sum.splits)
    let ?ids1 = "remove1 (row_key w) ids"
    from n True Cons.prems
    have run: "stocks_loop mk ws ?ids1 (acc @ [mk (row_key w) n]) = (Inr st, ids')"
      by simp
    have d1: "distinct ?ids1" using Cons.prems(1) by simp
    have s1: "set ?ids1 = set ids - {row_key w}" using Cons.prems(1) by simp
    from Cons.IH [OF d1 run]
    have "map key st = map key (acc @ [mk (row_key w) n])
            @ first_occurrences (filter (\<lambda>c. c \<in> set ?ids1) (map row_key ws))" .
    moreover have "filter (\<lambda>c. c \<in> set ?ids1) (map row_key ws)
                     = filter (\<lambda>x. x \<in> set ids \<and> x \<noteq> row_key w) (map row_key ws)"
      unfolding s1 by (rule filter_cong) auto
    moreover have "first_occurrences (filter (\<lambda>c. c \<in> set ids) (map row_key (w # ws)))
        = row_key w # first_occurrences (filter (\<lambda>x. x \<in> set ids \<and> x \<noteq> row_key w) (map row_key ws))"
      using first_occurrences_filter_Cons [of "\<lambda>c. c \<in> set ids" "row_key w" "map row_key ws"] True
      by simp
    ultimately show ?thesis using assms by simp
  qed
qed

lemma stocks_loop_keeps_acc:
  "stocks_loop mk rows ids acc = (Inr st, ids') \<Longrightarrow> set acc \<subseteq> set st"
  using stocks_loop_acc [of mk rows ids acc st ids'] by auto

lemma stocks_loop_find:
  "distinct ids \<Longrightarrow> stocks_loop mk rows ids acc = (Inr st, ids') \<Longrightarrow> i \<in> set ids \<Longrightarrow>
     (case find (\<lambda>w. row_key w = i) rows of
        None \<Rightarrow> i \<in> set ids'
      | Some w \<Rightarrow> \<exists>n. resolve_stock (row_quantity w) = Inr n \<and> mk i n \<in> set st)"
proof (induction rows arbitrary: ids acc)
  case Nil
  then show ?case by simp
next
  case (Cons w ws)
  show ?case
  proof (cases "row_key w \<in> set ids")
    case False
    with Cons.prems have "stocks_loop mk ws ids acc = (Inr st, ids')" and "row_key w \<noteq> i"
      by auto
    with Cons.IH [of ids acc] Cons.prems show ?thesis by simp
  next
    case True
    with Cons.prems obtain n where n: "resolve_stock (row_quantity w) = Inr n"
      by (auto split: sum.splits)
    let ?ids1 = "remove1 (row_key w) ids"
    from n True Cons.prems
    have run: "stocks_loop mk ws ?ids1 (acc @ [mk (row_key w) n]) = (Inr st, ids')"
      by simp
    show ?thesis
    proof (cases "row_key w = i")
      case True
      have "mk i n \<in> set st"
        using stocks_loop_keeps_acc [OF run] True by auto
      with True n show ?thesis by simp
    next
      case False
      have d1: "distinct ?ids1" using Cons.prems(1) by simp
      have "i \<in> set ?ids1" using Cons.prems(1,3) False by simp
      from Cons.IH [OF d1 run this] False show ?thesis by simp
    qed
  qed
qed

lemma stock_batch:
  assumes key: "\<forall>c n. key (mk c n) = c"
    and d: "distinct ids"
    and run: "stocks_loop mk rows ids [] = (Inr st0, ids')"
    and st: "st = st0 @ map (\<lambda>i. mk i 0) ids'"
  shows "map key st = first_occurrences (filter (\<lambda>c. c \<in> set ids) (map row_key rows))
                        @ filter (\<lambda>i. i \<notin> row_key ` set rows) ids"
    and "drop (length (first_occurrences (filter (\<lambda>c. c \<in> set ids) (map row_key rows)))) st
           = map (\<lambda>i. mk i 0) (filter (\<lambda>i. i \<notin> row_key ` set rows) ids)"
    and "distinct (map key st)"
    and "set (map key st) = set ids"
    and "\<forall>i \<in> set ids.
           (case find (\<lambda>w. row_key w = i) rows of
              None \<Rightarrow> mk i 0 \<in> set st
            | Some w \<Rightarrow> \<exists>n. resolve_stock (row_quantity w) = Inr n \<and> mk i n \<in> set st)"
proof -
  let ?m = "first_occurrences (filter (\<lambda>c. c \<in> set ids) (map row_key rows))"
  let ?u = "filter (\<lambda>i. i \<notin> row_key ` set rows) ids"
  have k0: "map key st0 = ?m"
    using stocks_loop_keys [OF key d run] by simp
  have u: "ids' = ?u"
    using stocks_loop_ids_ok [OF run] fold_remove1_distinct [OF d, of "map row_key rows"] by simp
  have kz: "map key (map (\<lambda>i. mk i 0) ids') = ids'"
    using key by (simp add: map_idI)
  show keys: "map key st = ?m @ ?u"
    using k0 kz u st by simp
  have "length st0 = length ?m"
    using k0 by (metis length_map)
  then show "drop (length ?m) st = map (\<lambda>i. mk i 0) ?u"
    using st u by simp
  have "set ?m \<inter> set ?u = {}" by auto
  then show "distinct (map key st)"
    unfolding keys using d by simp
  show "set (map key st) = set ids"
    unfolding keys by auto
  show "\<forall>i \<in> set ids.
           (case find (\<lambda>w. row_key w = i) rows of
              None \<Rightarrow> mk i 0 \<in> set st
            | Some w \<Rightarrow> \<exists>n. resolve_stock (row_quantity w) = Inr n \<and> mk i n \<in> set st)"
  proof
    fix i
    assume i: "i \<in> set ids"
    show "case find (\<lambda>w. row_key w = i) rows of
              None \<Rightarrow> mk i 0 \<in> set st
            | Some w \<Rightarrow> \<exists>n. resolve_stock (row_quantity w) = Inr n \<and> mk i n \<in> set st"
      using stocks_loop_find [OF d run i] st by (auto split: option.splits)
  qed
qed

section \<open>Quantity resolution\<close>

lemma is_digit_simps:
  "is_digit c \<Longrightarrow> \<not> is_space c" "is_digit c \<Longrightarrow> c \<noteq> CHR ''+''" "is_digit c \<Longrightarrow> c \<noteq> CHR ''-''"
  "is_digit c \<Longrightarrow> c \<noteq> CHR ''_''"
  by (auto simp: is_digit_def is_space_def)

lemma no_double_underscore_digits: "list_all is_digit s \<Longrightarrow> no_double_underscore s"
  by (induction s rule: no_double_underscore.induct) (auto dest: is_digit_simps(4))

lemma int_of_str_digits:
  assumes "s \<noteq> []" and "list_all is_digit s"
  shows "int_of_str s = Inr (int (dec_value s))"
proof -
  from assms have h: "is_digit (hd s)" and l: "is_digit (last s)"
    by (auto simp: list_all_iff)
  have t: "dropWhile is_space s = s"
    using assms(1) h is_digit_simps(1) by (cases s) auto
  have b: "takeWhile (\<lambda>c. is_digit c \<or> c = CHR ''_'') s = s"
    using assms(2) by (simp add: list_all_iff)
  have r: "dropWhile (\<lambda>c. is_digit c \<or> c = CHR ''_'') s = []"
    using assms(2) by (simp add: list_all_iff)
  have f: "filter is_digit s = s"
    using assms(2) by (simp add: list_all_iff)
  have ok: "digit_body_ok s"
    using assms h l no_double_underscore_digits by (simp add: digit_body_ok_def)
  have sg: "hd s \<noteq> CHR ''+''" "hd s \<noteq> CHR ''-''"
    using h is_digit_simps by blast+
  have u: "(if s \<noteq> [] \<and> (hd s = CHR ''+'' \<or> hd s = CHR ''-'') then tl s else s) = s"
    using sg by simp
  show ?thesis
    unfolding int_of_str_def Let_def t u b r f using ok sg by simp
qed

lemma int_of_str_error: "int_of_str s = Inl e \<Longrightarrow> e = ValueError"
  by (auto simp: int_of_str_def Let_def split: if_splits)

lemma resolve_stock_string:
  "resolve_stock (PStr s) =
     (if s = ''>10'' then Inr 100 else if s = ''1'' then Inr 0 else int_of_str s)"
  by (simp add: resolve_stock_def)

lemma stocks_loop_row:
  assumes pre: "stocks_loop mk pre ids [] = (Inr acc, ids1)" and m: "row_key w \<in> set ids1"
  shows "resolve_stock (row_quantity w) = Inr n \<Longrightarrow>
           stocks_loop mk (pre @ [w]) ids []
             = (Inr (acc @ [mk (row_key w) n]), remove1 (row_key w) ids1)"
    and "resolve_stock (row_quantity w) = Inl e \<Longrightarrow>
           stocks_loop mk (pre @ w # post) ids [] = (Inl e, ids1)"
    and "stocks_loop mk (pre @ w # post) ids [] = (Inr st, ids') \<Longrightarrow>
           \<exists>n. resolve_stock (row_quantity w) = Inr n \<and> length acc < length st
                \<and> st ! length acc = mk (row_key w) n"
proof -
  show "resolve_stock (row_quantity w) = Inr n \<Longrightarrow>
           stocks_loop mk (pre @ [w]) ids []
             = (Inr (acc @ [mk (row_key w) n]), remove1 (row_key w) ids1)"
    using pre m by (simp add: stocks_loop_append)
  show "resolve_stock (row_quantity w) = Inl e \<Longrightarrow>
           stocks_loop mk (pre @ w # post) ids [] = (Inl e, ids1)"
    using pre m by (simp add: stocks_loop_append)
  assume run: "stocks_loop mk (pre @ w # post) ids [] = (Inr st, ids')"
  then have step: "stocks_loop mk (w # post) ids1 acc = (Inr st, ids')"
    using pre by (simp add: stocks_loop_append)
  with m obtain n where n: "resolve_stock (row_quantity w) = Inr n"
    by (auto split: sum.splits)
  with step m
  have "stocks_loop mk post (remove1 (row_key w) ids1) (acc @ [mk (row_key w) n]) = (Inr st, ids')"
    by simp
  from stocks_loop_acc [OF this] obtain new where "st = (acc @ [mk (row_key w) n]) @ new" ..
  then have "length acc < length st \<and> st ! length acc = mk (row_key w) n"
    by (simp add: nth_append)
  with n show "\<exists>n. resolve_stock (row_quantity w) = Inr n \<and> length acc < length st
                \<and> st ! length acc = mk (row_key w) n"
    by blast
qed

lemma quantity_row:
  assumes q: "row_quantity w = PStr s"
    and pre: "stocks_loop mk pre ids [] = (Inr acc, ids1)"
    and m: "row_key w \<in> set ids1"
  shows "s = ''>10'' \<longrightarrow> stocks_loop mk (pre @ [w]) ids []
            = (Inr (acc @ [mk (row_key w) 100]), remove1 (row_key w) ids1)"
    and "s = ''1'' \<longrightarrow> stocks_loop mk (pre @ [w]) ids []
            = (Inr (acc @ [mk (row_key w) 0]), remove1 (row_key w) ids1)"
    and "\<forall>v. s \<noteq> ''>10'' \<and> s \<noteq> ''1'' \<and> int_of_str s = Inr v \<longrightarrow>
            stocks_loop mk (pre @ [w]) ids []
              = (Inr (acc @ [mk (row_key w) v]), remove1 (row_key w) ids1)"
    and "s \<noteq> ''>10'' \<and> s \<noteq> ''1'' \<and> (\<forall>v. int_of_str s \<noteq> Inr v) \<longrightarrow>
            (\<forall>post. stocks_loop mk (pre @ w # post) ids [] = (Inl ValueError, ids1))"
    and "\<forall>post st ids'. stocks_loop mk (pre @ w # post) ids [] = (Inr st, ids') \<longrightarrow>
            length acc < length st
            \<and> (\<exists>n. resolve_stock (PStr s) = Inr n \<and> st ! length acc = mk (row_key w) n)"
proof -
  show "s = ''>10'' \<longrightarrow> stocks_loop mk (pre @ [w]) ids []
            = (Inr (acc @ [mk (row_key w) 100]), remove1 (row_key w) ids1)"
    using stocks_loop_row(1) [OF pre m, of 100] q by (simp add: resolve_stock_string)
  show "s = ''1'' \<longrightarrow> stocks_loop mk (pre @ [w]) ids []
            = (Inr (acc @ [mk (row_key w) 0]), remove1 (row_key w) ids1)"
    using stocks_loop_row(1) [OF pre m, of 0] q by (simp add: resolve_stock_string)
  show "\<forall>v. s \<noteq> ''>10'' \<and> s \<noteq> ''1'' \<and> int_of_str s = Inr v \<longrightarrow>
            stocks_loop mk (pre @ [w]) ids []
              = (Inr (acc @ [mk (row_key w) v]), remove1 (row_key w) ids1)"
    using stocks_loop_row(1) [OF pre m] q by (simp add: resolve_stock_string)
  show "s \<noteq> ''>10'' \<and> s \<noteq> ''1'' \<and> (\<forall>v. int_of_str s \<noteq> Inr v) \<longrightarrow>
            (\<forall>post. stocks_loop mk (pre @ w # post) ids [] = (Inl ValueError, ids1))"
  proof (intro impI allI)
    fix post
    assume a: "s \<noteq> ''>10'' \<and> s \<noteq> ''1'' \<and> (\<forall>v. int_of_str s \<noteq> Inr v)"
    then obtain e where e: "int_of_str s = Inl e" by (cases "int_of_str s") auto
    then have "e = ValueError" by (rule int_of_str_error)
    with e a q have "resolve_stock (row_quantity w) = Inl ValueError"
      by (simp add: resolve_stock_string)
    then show "stocks_loop mk (pre @ w # post) ids [] = (Inl ValueError, ids1)"
      by (rule stocks_loop_row(2) [OF pre m])
  qed
  show "\<forall>post st ids'. stocks_loop mk (pre @ w # post) ids [] = (Inr st, ids') \<longrightarrow>
            length acc < length st
            \<and> (\<exists>n. resolve_stock (PStr s) = Inr n \<and> st ! length acc = mk (row_key w) n)"
    using stocks_loop_row(3) [OF pre m] q by fastforce
qed

section \<open>Price record builder\<close>

lemma prices_loop_append:
  "prices_loop conv mk (xs @ ys) ids acc =
     (case prices_loop conv mk xs ids acc of
        (Inl e, ids1) \<Rightarrow> (Inl e, ids1)
      | (Inr acc1, ids1) \<Rightarrow> prices_loop conv mk ys ids1 acc1)"
  by (induction xs arbitrary: acc) (auto split: sum.splits)

lemma prices_loop_records:
  "prices_loop conv mk rows ids acc = (Inr ps, ids') \<Longrightarrow>
     \<exists>new. ps = acc @ new
        \<and> list_all2 (\<lambda>w p. \<exists>v. conv (row_price w) = Inr v \<and> p = mk (row_key w) v)
             (filter (\<lambda>w. row_key w \<in> set ids) rows) new"
proof (induction rows arbitrary: acc)
  case Nil
  then show ?case by simp
next
  case (Cons w ws)
  show ?case
  proof (cases "row_key w \<in> set ids")
    case False
    with Cons show ?thesis by simp
  next
    case True
    with Cons.prems obtain v where v: "conv (row_price w) = Inr v"
      by (auto split: sum.splits)
    with True Cons.prems
    have "prices_loop conv mk ws ids (acc @ [mk (row_key w) v]) = (Inr ps, ids')" by simp
    from Cons.IH [OF this] obtain new where new: "ps = (acc @ [mk (row_key w) v]) @ new"
      "list_all2 (\<lambda>w p. \<exists>v. conv (row_price w) = Inr v \<and> p = mk (row_key w) v)
             (filter (\<lambda>w. row_key w \<in> set ids) ws) new"
      by blast
    with True v have "ps = acc @ (mk (row_key w) v # new)
        \<and> list_all2 (\<lambda>w p. \<exists>v. conv (row_price w) = Inr v \<and> p = mk (row_key w) v)
             (filter (\<lambda>w. row_key w \<in> set ids) (w # ws)) (mk (row_key w) v # new)"
      by simp
    then show ?thesis by blast
  qed
qed

lemma prices_loop_total:
  "\<forall>w \<in> set rows. row_key w \<in> set ids \<longrightarrow> (\<exists>v. conv (row_price w) = Inr v) \<Longrightarrow>
     \<exists>ps. prices_loop conv mk rows ids acc = (Inr ps, ids)"
  by (induction rows arbitrary: acc) (auto split: sum.splits)

lemma prices_loop_no_match:
  "\<forall>w \<in> set rows. row_key w \<notin> set ids \<Longrightarrow> prices_loop conv mk rows ids acc = (Inr acc, ids)"
  by (induction rows arbitrary: acc) auto

lemma prices_loop_row:
  assumes pre: "fst (prices_loop conv mk pre ids []) = Inr acc" and m: "row_key w \<in> set ids"
  shows "conv (row_price w) = Inr v \<Longrightarrow>
           prices_loop conv mk (pre @ [w]) ids [] = (Inr (acc @ [mk (row_key w) v]), ids)"
    and "conv (row_price w) = Inl e \<Longrightarrow>
           prices_loop conv mk (pre @ w # post) ids [] = (Inl e, ids)"
proof -
  have p: "prices_loop conv mk pre ids [] = (Inr acc, ids)"
    using pre prices_loop_ids [of conv mk pre ids "[]"] by (cases "prices_loop conv mk pre ids []") simp
  show "conv (row_price w) = Inr v \<Longrightarrow>
           prices_loop conv mk (pre @ [w]) ids [] = (Inr (acc @ [mk (row_key w) v]), ids)"
    using p m by (simp add: prices_loop_append)
  show "conv (row_price w) = Inl e \<Longrightarrow>
           prices_loop conv mk (pre @ w # post) ids [] = (Inl e, ids)"
    using p m by (simp add: prices_loop_append)
qed

lemma int_of_str_empty: "int_of_str [] = Inl ValueError"
  by (simp add: int_of_str_def digit_body_ok_def)

lemma int_of_str_price:
  "int_of_str (price_conversion s) =
     (if price_conversion s = [] then Inl ValueError
      else Inr (int (dec_value (price_conversion s))))"
  using int_of_str_digits [OF _ price_conversion_all_digits, of s] int_of_str_empty by simp

lemma market_price_of_string:
  "market_price_of (PStr s) =
     (if price_conversion s = [] then Inl ValueError
      else Inr (int (dec_value (price_conversion s))))"
  by (simp add: market_price_of_def int_of_str_price)

lemma price_conversion_val_Inr:
  "price_conversion_val v = Inr p \<longleftrightarrow> (\<exists>s. v = PStr s \<and> p = price_conversion s)"
  by (cases v) auto

lemma market_price_of_Inr:
  "market_price_of v = Inr n \<longleftrightarrow>
     (\<exists>s. v = PStr s \<and> price_conversion s \<noteq> [] \<and> n = int (dec_value (price_conversion s)))"
  by (cases v) (auto simp: market_price_of_string, auto simp: market_price_of_def)

text \<open>
  Claim C3. For every list of rows and every list of known offer ids, the list that price
  record building returns holds exactly one record for each row whose key is a known
  offer id, in the order of the rows, built from that row, and nothing else: no record
  stands for a row outside the known ids and none is a default. When no row key is a
  known id the result is the empty list. The list is returned whenever the price of every
  such row is a string (and, for \<^verbatim>\<open>market.py\<close>, has a digit before its first dot);
  what happens otherwise is the matter of claim C5. Both adapters.
\<close>

theorem price_batch_matched_rows:
  "(\<forall>ps ids'. seller_create_prices rows ids = (Inr ps, ids') \<longrightarrow>
      list_all2 (\<lambda>w p. \<exists>s. row_price w = PStr s
                   \<and> p = \<lparr>auto_action_enabled = ''UNKNOWN'', currency_code = ''RUB'',
                          price_offer_id = row_key w, old_price = ''0'',
                          price = price_conversion s\<rparr>)
        (filter (\<lambda>w. row_key w \<in> set ids) rows) ps)
   \<and> (\<forall>ps ids'. market_create_prices rows ids = (Inr ps, ids') \<longrightarrow>
      list_all2 (\<lambda>w p. \<exists>s. row_price w = PStr s \<and> price_conversion s \<noteq> []
                   \<and> p = \<lparr>price_id = row_key w,
                          price_body = \<lparr>price_value = int (dec_value (price_conversion s)),
                                        currencyId = ''RUR''\<rparr>\<rparr>)
        (filter (\<lambda>w. row_key w \<in> set ids) rows) ps)
   \<and> ((\<forall>w \<in> set rows. row_key w \<notin> set ids) \<longrightarrow>
        seller_create_prices rows ids = (Inr [], ids) \<and> market_create_prices rows ids = (Inr [], ids))
   \<and> ((\<forall>w \<in> set rows. row_key w \<in> set ids \<longrightarrow> (\<exists>s. row_price w = PStr s)) \<longrightarrow>
        (\<exists>ps. seller_create_prices rows ids = (Inr ps, ids)))
   \<and> ((\<forall>w \<in> set rows. row_key w \<in> set ids \<longrightarrow>
          (\<exists>s. row_price w = PStr s \<and> price_conversion s \<noteq> [])) \<longrightarrow>
        (\<exists>ps. market_create_prices rows ids = (Inr ps, ids)))"
proof (intro conjI allI impI)
  fix ps ids'
  assume "seller_create_prices rows ids = (Inr ps, ids')"
  then have "prices_loop price_conversion_val seller_price_record rows ids [] = (Inr ps, ids')"
    by (simp add: seller_create_prices_def seller_prices_loop_eq)
  from prices_loop_records [OF this]
  have "list_all2 (\<lambda>w p. \<exists>v. price_conversion_val (row_price w) = Inr v
                     \<and> p = seller_price_record (row_key w) v)
          (filter (\<lambda>w. row_key w \<in> set ids) rows) ps"
    by simp
  then show "list_all2 (\<lambda>w p. \<exists>s. row_price w = PStr s
                   \<and> p = \<lparr>auto_action_enabled = ''UNKNOWN'', currency_code = ''RUB'',
                          price_offer_id = row_key w, old_price = ''0'',
                          price = price_conversion s\<rparr>)
        (filter (\<lambda>w. row_key w \<in> set ids) rows) ps"
    by (rule list_all2_mono) (auto simp: price_conversion_val_Inr seller_price_record_def)
next
  fix ps ids'
  assume "market_create_prices rows ids = (Inr ps, ids')"
  then have "prices_loop market_price_of market_price_record rows ids [] = (Inr ps, ids')"
    by (simp add: market_create_prices_def market_prices_loop_eq)
  from prices_loop_records [OF this]
  have "list_all2 (\<lambda>w p. \<exists>v. market_price_of (row_price w) = Inr v
                     \<and> p = market_price_record (row_key w) v)
          (filter (\<lambda>w. row_key w \<in> set ids) rows) ps"
    by simp
  then show "list_all2 (\<lambda>w p. \<exists>s. row_price w = PStr s \<and> price_conversion s \<noteq> []
                   \<and> p = \<lparr>price_id = row_key w,
                          price_body = \<lparr>price_value = int (dec_value (price_conversion s)),
                                        currencyId = ''RUR''\<rparr>\<rparr>)
        (filter (\<lambda>w. row_key w \<in> set ids) rows) ps"
    by (rule list_all2_mono) (auto simp: market_price_of_Inr market_price_record_def)
next
  assume "\<forall>w \<in> set rows. row_key w \<notin> set ids"
  then show "seller_create_prices rows ids = (Inr [], ids)"
    by (simp add: seller_create_prices_def seller_prices_loop_eq prices_loop_no_match)
next
  assume "\<forall>w \<in> set rows. row_key w \<notin> set ids"
  then show "market_create_prices rows ids = (Inr [], ids)"
    by (simp add: market_create_prices_def market_prices_loop_eq prices_loop_no_match)
next
  assume "\<forall>w \<in> set rows. row_key w \<in> set ids \<longrightarrow> (\<exists>s. row_price w = PStr s)"
  then have "\<forall>w \<in> set rows. row_key w \<in> set ids \<longrightarrow> (\<exists>v. price_conversion_val (row_price w) = Inr v)"
    by (auto simp: price_conversion_val_Inr)
  from prices_loop_total [OF this]
  show "\<exists>ps. seller_create_prices rows ids = (Inr ps, ids)"
    by (simp add: seller_create_prices_def seller_prices_loop_eq)
next
  assume "\<forall>w \<in> set rows. row_key w \<in> set ids \<longrightarrow>
          (\<exists>s. row_price w = PStr s \<and> price_conversion s \<noteq> [])"
  then have "\<forall>w \<in> set rows. row_key w \<in> set ids \<longrightarrow> (\<exists>v. market_price_of (row_price w) = Inr v)"
    by (auto simp: market_price_of_Inr)
  from prices_loop_total [OF this]
  show "\<exists>ps. market_create_prices rows ids = (Inr ps, ids)"
    by (simp add: market_create_prices_def market_prices_loop_eq)
qed

theorem price_batch_matched_rows_witness:
  "seller_create_prices [example_row (PStr ''101'') ''5990'' ''5''] [''999''] = (Inr [], [''999''])
   \<and> market_create_prices [example_row (PStr ''101'') ''5990'' ''5''] [''999''] = (Inr [], [''999''])
   \<and> (\<exists>ps. market_create_prices [example_row (PStr ''101'') ''5990'' ''5''] [''101'']
              = (Inr ps, [''101'']))
   \<and> seller_create_prices [example_row (PStr ''101'') ''5990'' ''5''] [''101'']
       = (Inr [\<lparr>auto_action_enabled = ''UNKNOWN'', currency_code = ''RUB'',
                price_offer_id = ''101'', old_price = ''0'', price = ''5990''\<rparr>], [''101''])
   \<and> list_all2 (\<lambda>w p. \<exists>s. row_price w = PStr s
                   \<and> p = \<lparr>auto_action_enabled = ''UNKNOWN'', currency_code = ''RUB'',
                          price_offer_id = row_key w, old_price = ''0'',
                          price = price_conversion s\<rparr>)
        (filter (\<lambda>w. row_key w \<in> set [''101'']) [example_row (PStr ''101'') ''5990'' ''5''])
        [\<lparr>auto_action_enabled = ''UNKNOWN'', currency_code = ''RUB'',
                price_offer_id = ''101'', old_price = ''0'', price = ''5990''\<rparr>]"
proof -
  let ?R = "[example_row (PStr ''101'') ''5990'' ''5'']"
  have nm: "\<forall>w \<in> set ?R. row_key w \<notin> set [''999'']"
    by (simp add: example_row_def)
  have pc: "price_conversion ''5990'' \<noteq> []" by code_simp
  have ok: "\<forall>w \<in> set ?R. row_key w \<in> set [''101''] \<longrightarrow>
          (\<exists>s. row_price w = PStr s \<and> price_conversion s \<noteq> [])"
    using pc by (simp add: example_row_def)
  have ev: "seller_create_prices ?R [''101'']
       = (Inr [\<lparr>auto_action_enabled = ''UNKNOWN'', currency_code = ''RUB'',
                price_offer_id = ''101'', old_price = ''0'', price = ''5990''\<rparr>], [''101''])"
    by code_simp
  note t = price_batch_matched_rows [of ?R "[''999'']"]
  note u = price_batch_matched_rows [of ?R "[''101'']"]
  note a = t [THEN conjunct2, THEN conjunct2, THEN conjunct1, THEN mp, OF nm]
  note b = u [THEN conjunct2, THEN conjunct2, THEN conjunct2, THEN conjunct2, THEN mp, OF ok]
  note c = u [THEN conjunct1, THEN spec, THEN spec, THEN mp, OF ev]
  from a b ev c show ?thesis by (intro conjI) (erule conjunct1 conjunct2 | assumption)+
qed

section \<open>Price record builder: a price without digits\<close>

text \<open>
  Claim C5, as stated, fails for \<^verbatim>\<open>seller.py\<close>: its \<^verbatim>\<open>create_prices\<close> never calls
  \<^verbatim>\<open>int\<close>. For the matched row with code \<^verbatim>\<open>"101"\<close> and price \<^verbatim>\<open>"price"\<close> the
  normalized string is empty, which \<^verbatim>\<open>int\<close> rejects, and the function returns a record
  whose price is the empty string.
\<close>

theorem price_parse_failure_counterexample:
  "price_conversion ''price'' = []
   \<and> int_of_str (price_conversion ''price'') = Inl ValueError
   \<and> row_key (example_row (PStr ''101'') ''price'' ''5'') \<in> set [''101'']
   \<and> seller_create_prices [example_row (PStr ''101'') ''price'' ''5''] [''101'']
       = (Inr [\<lparr>auto_action_enabled = ''UNKNOWN'', currency_code = ''RUB'',
                price_offer_id = ''101'', old_price = ''0'', price = []\<rparr>], [''101''])"
  by code_simp

text \<open>
  Claim C5, amended. For a row whose price cell is a string and that price record
  building matches: the normalized string is rejected by \<^verbatim>\<open>int\<close> exactly when it is
  empty; in \<^verbatim>\<open>market.py\<close> an empty normalized string makes \<^verbatim>\<open>create_prices\<close> raise
  \<^verbatim>\<open>ValueError\<close> whatever rows follow, and a non-empty one gives a record with its
  decimal value; in \<^verbatim>\<open>seller.py\<close> the record carries the normalized string as it is,
  empty or not, and nothing is raised.
\<close>

theorem price_parse_failure:
  assumes "row_price w = PStr s"
  shows "((\<exists>e. int_of_str (price_conversion s) = Inl e) \<longleftrightarrow> price_conversion s = [])
   \<and> (\<forall>pre ids acc post.
         fst (market_prices_loop pre ids []) = Inr acc \<and> row_key w \<in> set ids
           \<and> (\<exists>e. int_of_str (price_conversion s) = Inl e) \<longrightarrow>
         market_create_prices (pre @ w # post) ids = (Inl ValueError, ids))
   \<and> (\<forall>pre ids acc.
         fst (market_prices_loop pre ids []) = Inr acc \<and> row_key w \<in> set ids
           \<and> price_conversion s \<noteq> [] \<longrightarrow>
         market_prices_loop (pre @ [w]) ids []
           = (Inr (acc @ [\<lparr>price_id = row_key w,
                            price_body = \<lparr>price_value = int (dec_value (price_conversion s)),
                                          currencyId = ''RUR''\<rparr>\<rparr>]), ids))
   \<and> (\<forall>pre ids acc.
         fst (seller_prices_loop pre ids []) = Inr acc \<and> row_key w \<in> set ids \<longrightarrow>
         seller_prices_loop (pre @ [w]) ids []
           = (Inr (acc @ [\<lparr>auto_action_enabled = ''UNKNOWN'', currency_code = ''RUB'',
                            price_offer_id = row_key w, old_price = ''0'',
                            price = price_conversion s\<rparr>]), ids))"
proof (intro conjI allI impI; (elim conjE)?)
  show "(\<exists>e. int_of_str (price_conversion s) = Inl e) \<longleftrightarrow> price_conversion s = []"
    by (simp add: int_of_str_price)
next
  fix pre ids acc post
  assume pre: "fst (market_prices_loop pre ids []) = Inr acc" and m: "row_key w \<in> set ids"
    and e: "\<exists>e. int_of_str (price_conversion s) = Inl e"
  from e have "price_conversion s = []" by (simp add: int_of_str_price split: if_splits)
  with assms have "market_price_of (row_price w) = Inl ValueError"
    by (simp add: market_price_of_string)
  from prices_loop_row(2) [OF pre [unfolded market_prices_loop_eq] m this]
  show "market_create_prices (pre @ w # post) ids = (Inl ValueError, ids)"
    by (simp add: market_create_prices_def market_prices_loop_eq)
next
  fix pre ids acc
  assume pre: "fst (market_prices_loop pre ids []) = Inr acc" and m: "row_key w \<in> set ids"
    and ne: "price_conversion s \<noteq> []"
  from ne assms have "market_price_of (row_price w) = Inr (int (dec_value (price_conversion s)))"
    by (simp add: market_price_of_string)
  from prices_loop_row(1) [OF pre [unfolded market_prices_loop_eq] m this]
  show "market_prices_loop (pre @ [w]) ids []
           = (Inr (acc @ [\<lparr>price_id = row_key w,
                            price_body = \<lparr>price_value = int (dec_value (price_conversion s)),
                                          currencyId = ''RUR''\<rparr>\<rparr>]), ids)"
    by (simp add: market_prices_loop_eq market_price_record_def)
next
  fix pre ids acc
  assume pre: "fst (seller_prices_loop pre ids []) = Inr acc" and m: "row_key w \<in> set ids"
  from assms have "price_conversion_val (row_price w) = Inr (price_conversion s)" by simp
  from prices_loop_row(1) [OF pre [unfolded seller_prices_loop_eq] m this]
  show "seller_prices_loop (pre @ [w]) ids []
           = (Inr (acc @ [\<lparr>auto_action_enabled = ''UNKNOWN'', currency_code = ''RUB'',
                            price_offer_id = row_key w, old_price = ''0'',
                            price = price_conversion s\<rparr>]), ids)"
    by (simp add: seller_prices_loop_eq seller_price_record_def)
qed

theorem price_parse_failure_witness:
  "market_create_prices ([] @ example_row (PStr ''101'') ''price'' ''5'' # []) [''101'']
     = (Inl ValueError, [''101''])
   \<and> seller_prices_loop ([] @ [example_row (PStr ''101'') ''price'' ''5'']) [''101''] []
     = (Inr ([] @ [\<lparr>auto_action_enabled = ''UNKNOWN'', currency_code = ''RUB'',
                      price_offer_id = row_key (example_row (PStr ''101'') ''price'' ''5''),
                      old_price = ''0'', price = price_conversion ''price''\<rparr>]), [''101''])"
proof -
  let ?w = "example_row (PStr ''101'') ''price'' ''5''"
  have q: "row_price ?w = PStr ''price''" by (simp add: example_row_def)
  have "int_of_str (price_conversion ''price'') = Inl ValueError" by code_simp
  then have e: "\<exists>e. int_of_str (price_conversion ''price'') = Inl e" by blast
  have m: "row_key ?w \<in> set [''101'']" by (simp add: example_row_def)
  have p1: "fst (market_prices_loop [] [''101''] []) = Inr []
              \<and> row_key ?w \<in> set [''101'']
              \<and> (\<exists>e. int_of_str (price_conversion ''price'') = Inl e)"
    using m e by simp
  have p2: "fst (seller_prices_loop [] [''101''] []) = Inr [] \<and> row_key ?w \<in> set [''101'']"
    using m by simp
  note t = price_parse_failure [OF q]
  note a = t [THEN conjunct2, THEN conjunct1, THEN spec, THEN spec, THEN spec, THEN spec,
      THEN mp, OF p1, of "[]"]
  note b = t [THEN conjunct2, THEN conjunct2, THEN conjunct2, THEN spec, THEN spec, THEN spec,
      THEN mp, OF p2]
  from a b show ?thesis by (intro conjI)
qed

section \<open>Matching by the string of the code\<close>

lemma prices_loop_keys:
  assumes key: "\<forall>c v. key (mk c v) = c"
    and run: "prices_loop conv mk rows ids [] = (Inr ps, ids')"
  shows "map key ps = map row_key (filter (\<lambda>w. row_key w \<in> set ids) rows)"
proof -
  from prices_loop_records [OF run]
  have "list_all2 (\<lambda>w p. \<exists>v. conv (row_price w) = Inr v \<and> p = mk (row_key w) v)
          (filter (\<lambda>w. row_key w \<in> set ids) rows) ps"
    by simp
  then have "list_all2 (\<lambda>w p. key p = row_key w) (filter (\<lambda>w. row_key w \<in> set ids) rows) ps"
    by (rule list_all2_mono) (use key in auto)
  then show ?thesis
    by (induction rule: list_all2_induct) auto
qed

section \<open>Offer-id fetcher: termination and result\<close>

lemma concat_take_Suc:
  "k < length pgs \<Longrightarrow>
     concat (map f (take (Suc k) pgs)) = concat (map f (take k pgs)) @ f (pgs ! k)"
  by (simp add: take_Suc_conv_app_nth)

lemma seller_fetch_loop_run:
  assumes api: "\<forall>k < n. api k (seller_cursor pgs k) = Inr (pgs ! k) \<and> \<not> seller_done pgs k"
    and n: "n \<le> length pgs"
  shows "j \<le> n \<Longrightarrow>
           seller_fetch_loop api j (seller_cursor pgs j) (concat (map page_items (take j pgs)))
             = seller_fetch_loop api n (seller_cursor pgs n) (concat (map page_items (take n pgs)))"
proof (induction "n - j" arbitrary: j)
  case 0
  then show ?case by simp
next
  case (Suc d)
  then have j: "j < n" by simp
  with n have jl: "j < length pgs" by simp
  from api j have a: "api j (seller_cursor pgs j) = Inr (pgs ! j)" and nd: "\<not> seller_done pgs j"
    by simp_all
  have acc: "concat (map page_items (take j pgs)) @ page_items (pgs ! j)
               = concat (map page_items (take (Suc j) pgs))"
    using concat_take_Suc [OF jl, of page_items] by simp
  have cur: "last_id (pgs ! j) = seller_cursor pgs (Suc j)"
    by (simp add: seller_cursor_def)
  have "seller_fetch_loop api j (seller_cursor pgs j) (concat (map page_items (take j pgs)))
          = seller_fetch_loop api (Suc j) (seller_cursor pgs (Suc j))
              (concat (map page_items (take (Suc j) pgs)))"
    using a nd unfolding seller_done_def
    by (subst seller_fetch_loop.simps) (simp only: acc cur sum.case if_False)
  also have "\<dots> = seller_fetch_loop api n (seller_cursor pgs n)
                      (concat (map page_items (take n pgs)))"
    using Suc.hyps(1) [of "Suc j"] Suc.hyps(2) j by simp
  finally show ?case .
qed

lemma seller_fetch_loop_start:
  "seller_fetch_loop api 0 [] [] =
     seller_fetch_loop api 0 (seller_cursor pgs 0) (concat (map page_items (take 0 pgs)))"
  by (simp add: seller_cursor_def)

lemma market_fetch_loop_run:
  assumes api: "\<forall>k < n. api k (market_cursor pgs k) = Inr (pgs ! k) \<and> \<not> market_done pgs k"
    and n: "n \<le> length pgs"
  shows "j \<le> n \<Longrightarrow>
           market_fetch_loop api j (market_cursor pgs j)
               (concat (map offerMappingEntries (take j pgs)))
             = market_fetch_loop api n (market_cursor pgs n)
                 (concat (map offerMappingEntries (take n pgs)))"
proof (induction "n - j" arbitrary: j)
  case 0
  then show ?case by simp
next
  case (Suc d)
  then have j: "j < n" by simp
  with n have jl: "j < length pgs" by simp
  from api j have a: "api j (market_cursor pgs j) = Inr (pgs ! j)" and nd: "\<not> market_done pgs j"
    by simp_all
  have acc: "concat (map offerMappingEntries (take j pgs)) @ offerMappingEntries (pgs ! j)
               = concat (map offerMappingEntries (take (Suc j) pgs))"
    using concat_take_Suc [OF jl, of offerMappingEntries] by simp
  have cur: "nextPageToken (pgs ! j) = market_cursor pgs (Suc j)"
    by (simp add: market_cursor_def)
  have "market_fetch_loop api j (market_cursor pgs j)
            (concat (map offerMappingEntries (take j pgs)))
          = market_fetch_loop api (Suc j) (market_cursor pgs (Suc j))
              (concat (map offerMappingEntries (take (Suc j) pgs)))"
    using a nd unfolding market_done_def
    by (subst market_fetch_loop.simps) (simp only: acc cur sum.case if_False)
  also have "\<dots> = market_fetch_loop api n (market_cursor pgs n)
                      (concat (map offerMappingEntries (take n pgs)))"
    using Suc.hyps(1) [of "Suc j"] Suc.hyps(2) j by simp
  finally show ?case .
qed

lemma market_fetch_loop_start:
  "market_fetch_loop api 0 (Some []) [] =
     market_fetch_loop api 0 (market_cursor pgs 0)
       (concat (map offerMappingEntries (take 0 pgs)))"
  by (simp add: market_cursor_def)

lemma seller_fetch_ok:
  assumes api: "\<forall>k < length pgs. api k (seller_cursor pgs k) = Inr (pgs ! k)"
    and ne: "pgs \<noteq> []"
    and nd: "\<forall>k < length pgs - 1. \<not> seller_done pgs k"
    and dn: "seller_done pgs (length pgs - 1)"
  shows "seller_get_offer_ids api = Some (Inr (map product_offer_id (concat (map page_items pgs))))"
proof -
  let ?n = "length pgs - 1"
  from ne have n: "?n < length pgs" by (cases pgs) simp_all
  have pre: "\<forall>k < ?n. api k (seller_cursor pgs k) = Inr (pgs ! k) \<and> \<not> seller_done pgs k"
    using api nd by simp
  have a: "api ?n (seller_cursor pgs ?n) = Inr (pgs ! ?n)" using api n by blast
  have acc: "concat (map page_items (take ?n pgs)) @ page_items (pgs ! ?n)
               = concat (map page_items pgs)"
    using concat_take_Suc [OF n, of page_items] n by simp
  have d: "total (pgs ! ?n) = int (length (concat (map page_items pgs)))"
    using dn n by (simp add: seller_done_def)
  have "seller_fetch_loop api 0 [] []
          = seller_fetch_loop api ?n (seller_cursor pgs ?n) (concat (map page_items (take ?n pgs)))"
    using seller_fetch_loop_run [where api = api and pgs = pgs and n = "length pgs - 1" and j = 0, OF pre] n
    by (simp add: seller_fetch_loop_start [of api pgs])
  also have "\<dots> = Some (Inr (concat (map page_items pgs)))"
    using a d by (subst seller_fetch_loop.simps) (simp only: acc sum.case if_True simp_thms)
  finally show ?thesis by (simp add: seller_get_offer_ids_def)
qed

lemma seller_fetch_err:
  assumes api: "\<forall>k < length pgs. api k (seller_cursor pgs k) = Inr (pgs ! k) \<and> \<not> seller_done pgs k"
    and e: "api (length pgs) (seller_cursor pgs (length pgs)) = Inl e"
  shows "seller_get_offer_ids api = Some (Inl e)"
proof -
  have "seller_fetch_loop api 0 [] []
          = seller_fetch_loop api (length pgs) (seller_cursor pgs (length pgs))
              (concat (map page_items (take (length pgs) pgs)))"
    using seller_fetch_loop_run [where api = api and pgs = pgs and n = "length pgs" and j = 0, OF api]
    by (simp add: seller_fetch_loop_start [of api pgs])
  also have "\<dots> = Some (Inl e)"
    using e by (subst seller_fetch_loop.simps) (simp only: sum.case)
  finally show ?thesis by (simp add: seller_get_offer_ids_def)
qed

lemma market_fetch_ok:
  assumes api: "\<forall>k < length pgs. api k (market_cursor pgs k) = Inr (pgs ! k)"
    and ne: "pgs \<noteq> []"
    and nd: "\<forall>k < length pgs - 1. \<not> market_done pgs k"
    and dn: "market_done pgs (length pgs - 1)"
  shows "market_get_offer_ids api = Some (Inr (map shopSku (concat (map offerMappingEntries pgs))))"
proof -
  let ?n = "length pgs - 1"
  from ne have n: "?n < length pgs" by (cases pgs) simp_all
  have pre: "\<forall>k < ?n. api k (market_cursor pgs k) = Inr (pgs ! k) \<and> \<not> market_done pgs k"
    using api nd by simp
  have a: "api ?n (market_cursor pgs ?n) = Inr (pgs ! ?n)" using api n by blast
  have acc: "concat (map offerMappingEntries (take ?n pgs)) @ offerMappingEntries (pgs ! ?n)
               = concat (map offerMappingEntries pgs)"
    using concat_take_Suc [OF n, of offerMappingEntries] n by simp
  have d: "not_page (nextPageToken (pgs ! ?n))"
    using dn by (simp add: market_done_def)
  have "market_fetch_loop api 0 (Some []) []
          = market_fetch_loop api ?n (market_cursor pgs ?n)
              (concat (map offerMappingEntries (take ?n pgs)))"
    using market_fetch_loop_run [where api = api and pgs = pgs and n = "length pgs - 1" and j = 0, OF pre] n
    by (simp add: market_fetch_loop_start [of api pgs])
  also have "\<dots> = Some (Inr (concat (map offerMappingEntries pgs)))"
    using a d by (subst market_fetch_loop.simps) (simp only: acc sum.case if_True simp_thms)
  finally show ?thesis by (simp add: market_get_offer_ids_def)
qed

lemma market_fetch_err:
  assumes api: "\<forall>k < length pgs. api k (market_cursor pgs k) = Inr (pgs ! k) \<and> \<not> market_done pgs k"
    and e: "api (length pgs) (market_cursor pgs (length pgs)) = Inl e"
  shows "market_get_offer_ids api = Some (Inl e)"
proof -
  have "market_fetch_loop api 0 (Some []) []
          = market_fetch_loop api (length pgs) (market_cursor pgs (length pgs))
              (concat (map offerMappingEntries (take (length pgs) pgs)))"
    using market_fetch_loop_run [where api = api and pgs = pgs and n = "length pgs" and j = 0, OF api]
    by (simp add: market_fetch_loop_start [of api pgs])
  also have "\<dots> = Some (Inl e)"
    using e by (subst market_fetch_loop.simps) (simp only: sum.case)
  finally show ?thesis by (simp add: market_get_offer_ids_def)
qed

text \<open>
  Claim C6. Let the listing endpoint answer the requests of a run by the pages \<open>pgs\<close>,
  each request carrying the cursor of the page before it. If the last page is the first
  one that signals the end (for \<^verbatim>\<open>seller.py\<close>: its reported total equals the number of
  items accumulated; for \<^verbatim>\<open>market.py\<close>: its next-page token is absent or empty), the
  fetcher returns, and what it returns is the offer identifiers of all items of all the
  pages, in order. If no page signals the end and the next request fails, the fetcher
  returns the transport error of that request and no list.
\<close>

theorem fetch_until_signal:
  "((\<forall>k < length pgs. api k (seller_cursor pgs k) = Inr (pgs ! k)) \<and> pgs \<noteq> []
      \<and> (\<forall>k < length pgs - 1. \<not> seller_done pgs k) \<and> seller_done pgs (length pgs - 1) \<longrightarrow>
      seller_get_offer_ids api
        = Some (Inr (map product_offer_id (concat (map page_items pgs)))))
   \<and> ((\<forall>k < length pgs. api k (seller_cursor pgs k) = Inr (pgs ! k) \<and> \<not> seller_done pgs k)
      \<and> api (length pgs) (seller_cursor pgs (length pgs)) = Inl e \<longrightarrow>
      seller_get_offer_ids api = Some (Inl e))
   \<and> ((\<forall>k < length mpgs. mapi k (market_cursor mpgs k) = Inr (mpgs ! k)) \<and> mpgs \<noteq> []
      \<and> (\<forall>k < length mpgs - 1. \<not> market_done mpgs k) \<and> market_done mpgs (length mpgs - 1) \<longrightarrow>
      market_get_offer_ids mapi
        = Some (Inr (map shopSku (concat (map offerMappingEntries mpgs)))))
   \<and> ((\<forall>k < length mpgs. mapi k (market_cursor mpgs k) = Inr (mpgs ! k) \<and> \<not> market_done mpgs k)
      \<and> mapi (length mpgs) (market_cursor mpgs (length mpgs)) = Inl e \<longrightarrow>
      market_get_offer_ids mapi = Some (Inl e))"
  using seller_fetch_ok [of pgs api] seller_fetch_err [of pgs api e]
    market_fetch_ok [of mpgs mapi] market_fetch_err [of mpgs mapi e]
  by (intro conjI impI) blast+

theorem fetch_until_signal_witness:
  "seller_get_offer_ids example_seller_api = Some (Inr [''101'', ''102''])
   \<and> seller_get_offer_ids failing_seller_api = Some (Inl ConnectionError)
   \<and> market_get_offer_ids example_market_api = Some (Inr [''101'', ''102''])"
proof -
  have two: "k < 2 \<longleftrightarrow> k = 0 \<or> k = Suc 0" for k :: nat by auto
  have s1: "(\<forall>k < length example_seller_pages.
               example_seller_api k (seller_cursor example_seller_pages k)
                 = Inr (example_seller_pages ! k))
            \<and> example_seller_pages \<noteq> []
            \<and> (\<forall>k < length example_seller_pages - 1. \<not> seller_done example_seller_pages k)
            \<and> seller_done example_seller_pages (length example_seller_pages - 1)"
    by (simp add: example_seller_pages_def example_seller_api_def seller_cursor_def
        seller_done_def two)
  have s2: "(\<forall>k < length [example_seller_pages ! 0].
               failing_seller_api k (seller_cursor [example_seller_pages ! 0] k)
                 = Inr ([example_seller_pages ! 0] ! k)
               \<and> \<not> seller_done [example_seller_pages ! 0] k)
            \<and> failing_seller_api (length [example_seller_pages ! 0])
                 (seller_cursor [example_seller_pages ! 0] (length [example_seller_pages ! 0]))
               = Inl ConnectionError"
    by (simp add: example_seller_pages_def failing_seller_api_def seller_cursor_def
        seller_done_def)
  have s3: "(\<forall>k < length example_market_pages.
               example_market_api k (market_cursor example_market_pages k)
                 = Inr (example_market_pages ! k))
            \<and> example_market_pages \<noteq> []
            \<and> (\<forall>k < length example_market_pages - 1. \<not> market_done example_market_pages k)
            \<and> market_done example_market_pages (length example_market_pages - 1)"
    by (simp add: example_market_pages_def example_market_api_def market_cursor_def
        market_done_def not_page_def two)
  note a = fetch_until_signal [of example_seller_pages example_seller_api _ _ _,
      THEN conjunct1, THEN mp, OF s1]
  note b = fetch_until_signal [of "[example_seller_pages ! 0]" failing_seller_api ConnectionError,
      THEN conjunct2, THEN conjunct1, THEN mp, OF s2]
  note c = fetch_until_signal [of _ _ _ example_market_pages example_market_api,
      THEN conjunct2, THEN conjunct2, THEN conjunct1, THEN mp, OF s3]
  have a': "seller_get_offer_ids example_seller_api = Some (Inr [''101'', ''102''])"
    using a by (simp add: example_seller_pages_def)
  have c': "market_get_offer_ids example_market_api = Some (Inr [''101'', ''102''])"
    using c by (simp add: example_market_pages_def)
  from a' b c' show ?thesis by (intro conjI)
qed

section \<open>The price batch of a run\<close>

text \<open>
  \<^verbatim>\<open>main\<close> of \<^verbatim>\<open>seller.py\<close> hands to \<^verbatim>\<open>create_prices\<close> the list that
  \<^verbatim>\<open>create_stocks\<close> has emptied of every id it matched. With a duplicate-free list of
  offer ids no row key is left in it, so the price list of \<^verbatim>\<open>main\<close> is empty whenever it
  is built at all.
\<close>

lemma seller_main_prices_nil:
  assumes d: "distinct ids" and r: "seller_main_prices ids rows = Inr ps"
  shows "ps = []"
proof -
  from r obtain st ids' where cs: "seller_create_stocks rows ids = (Inr st, ids')"
    and cp: "fst (seller_create_prices rows ids') = Inr ps"
    by (auto simp: seller_main_prices_def split: prod.splits sum.splits)
  from cs obtain st0 where
    run: "stocks_loop (\<lambda>c n. \<lparr>offer_id = c, stock = n\<rparr>) rows ids [] = (Inr st0, ids')"
    using seller_create_stocks_Inr by blast
  have "ids' = filter (\<lambda>i. i \<notin> set (map row_key rows)) ids"
    using stocks_loop_ids_ok [OF run] fold_remove1_distinct [OF d] by simp
  then have "\<forall>w \<in> set rows. row_key w \<notin> set ids'" by auto
  then have "seller_create_prices rows ids' = (Inr [], ids')"
    by (simp add: seller_create_prices_def seller_prices_loop_eq prices_loop_no_match)
  with cp show ?thesis by simp
qed

text \<open>
  Claim C4 says that the price batch of a run holds one price record for every row whose
  code is among the offer ids fetched at the start of the run. For the offer ids
  \<^verbatim>\<open>['101']\<close> and the one row of the docstrings (code \<^verbatim>\<open>'101'\<close>, quantity
  \<^verbatim>\<open>'5'\<close>), whose key is among them, \<^verbatim>\<open>main\<close> of \<^verbatim>\<open>seller.py\<close> sends one stock
  batch and no price batch at all: its price list is empty, while \<^verbatim>\<open>upload_prices\<close>
  of the same file, given the same offer ids, builds the record for the row.
\<close>

theorem seller_main_price_batch_example:
  "seller_main [''101''] [example_row (PStr ''101'') example_price ''5'']
     = ([Update_stocks [\<lparr>offer_id = ''101'', stock = 5\<rparr>]], None)
   \<and> seller_main_prices [''101''] [example_row (PStr ''101'') example_price ''5''] = Inr []
   \<and> row_key (example_row (PStr ''101'') example_price ''5'') \<in> set [''101'']
   \<and> seller_upload_prices [''101''] [example_row (PStr ''101'') example_price ''5'']
       = Inr [\<lparr>auto_action_enabled = ''UNKNOWN'', currency_code = ''RUB'',
               price_offer_id = ''101'', old_price = ''0'', price = ''5990''\<rparr>]"
  by code_simp

section \<open>When the stock loop returns and when it raises\<close>

lemma resolves_iff: "resolves w \<longleftrightarrow> (\<exists>n. resolve_stock (row_quantity w) = Inr n)"
  by (simp add: resolves_def split: sum.splits)

lemma working_ids_0 [simp]: "working_ids rows ids 0 = ids"
  by (simp add: working_ids_def)

lemma working_ids_Suc:
  "working_ids (w # ws) ids (Suc j) = working_ids ws (remove1 (row_key w) ids) j"
  by (simp add: working_ids_def)

lemma working_ids_all: "working_ids rows ids (length rows) = fold remove1 (map row_key rows) ids"
  by (simp add: working_ids_def)

lemma working_ids_take:
  "j \<le> k \<Longrightarrow> working_ids (take k rows) ids j = working_ids rows ids j"
  by (simp add: working_ids_def min_def)

lemma matched_at_0 [simp]: "matched_at (w # ws) ids 0 \<longleftrightarrow> row_key w \<in> set ids"
  by (simp add: matched_at_def)

lemma matched_at_Suc:
  "matched_at (w # ws) ids (Suc j) \<longleftrightarrow> matched_at ws (remove1 (row_key w) ids) j"
  by (simp add: matched_at_def working_ids_Suc)

lemma matched_at_take:
  "j < k \<Longrightarrow> k \<le> length rows \<Longrightarrow> matched_at (take k rows) ids j = matched_at rows ids j"
  by (simp add: matched_at_def working_ids_take)

lemma set_fold_remove1: "x \<in> set (fold remove1 cs ids) \<Longrightarrow> x \<in> set ids"
  by (metis in_diffD mset_fold_remove1 set_mset_mset)

lemma matched_at_known: "matched_at rows ids j \<Longrightarrow> row_key (rows ! j) \<in> set ids"
  unfolding matched_at_def working_ids_def by (rule set_fold_remove1)

lemma stocks_loop_returns:
  "\<forall>j < length rows. matched_at rows ids j \<longrightarrow> resolves (rows ! j) \<Longrightarrow>
     \<exists>st. stocks_loop mk rows ids acc = (Inr st, working_ids rows ids (length rows))"
proof (induction rows arbitrary: ids acc)
  case Nil
  show ?case by simp
next
  case (Cons w ws)
  have rest: "\<forall>j < length ws. matched_at ws (remove1 (row_key w) ids) j \<longrightarrow> resolves (ws ! j)"
  proof (intro allI impI)
    fix j
    assume "j < length ws" "matched_at ws (remove1 (row_key w) ids) j"
    then have "Suc j < length (w # ws)" "matched_at (w # ws) ids (Suc j)"
      by (simp_all add: matched_at_Suc)
    with Cons.prems have "resolves ((w # ws) ! Suc j)" by blast
    then show "resolves (ws ! j)" by simp
  qed
  show ?case
  proof (cases "row_key w \<in> set ids")
    case False
    then have same: "remove1 (row_key w) ids = ids" by (simp add: remove1_idem)
    from Cons.IH [of ids acc] rest same False show ?thesis
      by (simp add: working_ids_def)
  next
    case True
    with Cons.prems have "resolves ((w # ws) ! 0)" by (metis length_greater_0_conv list.discI matched_at_0)
    then obtain n where n: "resolve_stock (row_quantity w) = Inr n"
      by (auto simp: resolves_iff)
    from Cons.IH [OF rest, of "acc @ [mk (row_key w) n]"] True n show ?thesis
      by (simp add: working_ids_def)
  qed
qed

lemma stocks_loop_raises:
  assumes k: "k < length rows"
    and before: "\<forall>j < k. matched_at rows ids j \<longrightarrow> resolves (rows ! j)"
    and m: "matched_at rows ids k"
    and e: "resolve_stock (row_quantity (rows ! k)) = Inl e"
  shows "stocks_loop mk rows ids [] = (Inl e, working_ids rows ids k)"
proof -
  let ?pre = "take k rows"
  have len: "length ?pre = k" using k by simp
  have "\<forall>j < length ?pre. matched_at ?pre ids j \<longrightarrow> resolves (?pre ! j)"
    using before k by (simp add: matched_at_take)
  from stocks_loop_returns [OF this, of mk "[]"] obtain acc where
    pre: "stocks_loop mk ?pre ids [] = (Inr acc, working_ids ?pre ids (length ?pre))"
    by blast
  have w: "working_ids ?pre ids (length ?pre) = working_ids rows ids k"
    using len working_ids_take [of k k rows ids] by simp
  have split: "rows = ?pre @ rows ! k # drop (Suc k) rows"
    using k by (simp add: id_take_nth_drop)
  have mk: "row_key (rows ! k) \<in> set (working_ids rows ids k)"
    using m by (simp add: matched_at_def)
  from stocks_loop_row(2) [OF pre [unfolded w] mk e, of "drop (Suc k) rows"] split
  show ?thesis by simp
qed

lemma stocks_loop_outcome:
  assumes "stocks_loop mk rows ids [] = (r, ids')"
  shows "(case r of
            Inr st \<Rightarrow> ids' = working_ids rows ids (length rows)
                      \<and> (\<forall>j < length rows. matched_at rows ids j \<longrightarrow> resolves (rows ! j))
          | Inl e \<Rightarrow> \<exists>k < length rows. ids' = working_ids rows ids k \<and> matched_at rows ids k
                      \<and> resolve_stock (row_quantity (rows ! k)) = Inl e
                      \<and> (\<forall>j < k. matched_at rows ids j \<longrightarrow> resolves (rows ! j)))"
proof (cases "\<forall>j < length rows. matched_at rows ids j \<longrightarrow> resolves (rows ! j)")
  case True
  from stocks_loop_returns [OF True, of mk "[]"] assms True show ?thesis by auto
next
  case False
  define k where "k = (LEAST j. j < length rows \<and> matched_at rows ids j \<and> \<not> resolves (rows ! j))"
  from False have ex: "\<exists>j. j < length rows \<and> matched_at rows ids j \<and> \<not> resolves (rows ! j)"
    by blast
  from LeastI_ex [OF ex] have kp: "k < length rows" "matched_at rows ids k" "\<not> resolves (rows ! k)"
    unfolding k_def by blast+
  have least: "\<forall>j < k. matched_at rows ids j \<longrightarrow> resolves (rows ! j)"
  proof (intro allI impI)
    fix j assume j: "j < k" "matched_at rows ids j"
    show "resolves (rows ! j)"
    proof (rule ccontr)
      assume "\<not> resolves (rows ! j)"
      with j kp(1) have "j < length rows \<and> matched_at rows ids j \<and> \<not> resolves (rows ! j)" by simp
      then have "k \<le> j" unfolding k_def by (rule Least_le)
      with j(1) show False by simp
    qed
  qed
  from kp(3) obtain e where e: "resolve_stock (row_quantity (rows ! k)) = Inl e"
    by (cases "resolve_stock (row_quantity (rows ! k))") (auto simp: resolves_iff)
  from stocks_loop_raises [OF kp(1) least kp(2) e, of mk] assms
  have "r = Inl e" "ids' = working_ids rows ids k" by simp_all
  with kp e least show ?thesis by auto
qed

lemma working_ids_facts:
  "subseq (working_ids rows ids j) ids"
  "mset (working_ids rows ids j) = mset ids - mset (map row_key (take j rows))"
  "distinct ids \<Longrightarrow> working_ids rows ids j = filter (\<lambda>i. i \<notin> row_key ` set (take j rows)) ids"
proof -
  show "subseq (working_ids rows ids j) ids"
    unfolding working_ids_def by (rule subseq_fold_remove1)
  show "mset (working_ids rows ids j) = mset ids - mset (map row_key (take j rows))"
    unfolding working_ids_def by (rule mset_fold_remove1)
  show "distinct ids \<Longrightarrow>
          working_ids rows ids j = filter (\<lambda>i. i \<notin> row_key ` set (take j rows)) ids"
    unfolding working_ids_def
    using fold_remove1_distinct [of ids "map row_key (take j rows)"] by simp
qed

lemma create_stocks_frame:
  fixes mk :: "string \<Rightarrow> int \<Rightarrow> 'r"
  assumes inr: "\<And>st ids'. create = (Inr st, ids') \<longleftrightarrow>
                   (\<exists>st0. stocks_loop mk rows ids [] = (Inr st0, ids') \<and> st = st0 @ map (\<lambda>i. mk i 0) ids')"
    and inl: "\<And>e ids'. create = (Inl e, ids') \<longleftrightarrow> stocks_loop mk rows ids [] = (Inl e, ids')"
  shows "(\<forall>j < length rows. matched_at rows ids j \<longrightarrow> resolves (rows ! j)) \<longrightarrow>
           (\<exists>st. create = (Inr st, working_ids rows ids (length rows)))"
    and "\<forall>k e. k < length rows \<and> (\<forall>j < k. matched_at rows ids j \<longrightarrow> resolves (rows ! j))
              \<and> matched_at rows ids k \<and> resolve_stock (row_quantity (rows ! k)) = Inl e \<longrightarrow>
           create = (Inl e, working_ids rows ids k)"
    and "\<forall>r ids'. create = (r, ids') \<longrightarrow>
           subseq ids' ids
           \<and> (case r of
                 Inr st \<Rightarrow> ids' = working_ids rows ids (length rows)
                   \<and> mset ids' = mset ids - mset (map row_key rows)
                   \<and> (distinct ids \<longrightarrow> ids' = filter (\<lambda>i. i \<notin> row_key ` set rows) ids)
               | Inl e \<Rightarrow> \<exists>k < length rows. ids' = working_ids rows ids k
                   \<and> matched_at rows ids k \<and> resolve_stock (row_quantity (rows ! k)) = Inl e
                   \<and> (\<forall>j < k. matched_at rows ids j \<longrightarrow> resolves (rows ! j)))"
proof -
  show "(\<forall>j < length rows. matched_at rows ids j \<longrightarrow> resolves (rows ! j)) \<longrightarrow>
           (\<exists>st. create = (Inr st, working_ids rows ids (length rows)))"
  proof
    assume "\<forall>j < length rows. matched_at rows ids j \<longrightarrow> resolves (rows ! j)"
    from stocks_loop_returns [OF this, of mk "[]"] obtain st0 where
      "stocks_loop mk rows ids [] = (Inr st0, working_ids rows ids (length rows))" by blast
    then show "\<exists>st. create = (Inr st, working_ids rows ids (length rows))"
      using inr by blast
  qed
  show "\<forall>k e. k < length rows \<and> (\<forall>j < k. matched_at rows ids j \<longrightarrow> resolves (rows ! j))
              \<and> matched_at rows ids k \<and> resolve_stock (row_quantity (rows ! k)) = Inl e \<longrightarrow>
           create = (Inl e, working_ids rows ids k)"
    using stocks_loop_raises [of _ rows ids _ mk] inl by blast
  show "\<forall>r ids'. create = (r, ids') \<longrightarrow>
           subseq ids' ids
           \<and> (case r of
                 Inr st \<Rightarrow> ids' = working_ids rows ids (length rows)
                   \<and> mset ids' = mset ids - mset (map row_key rows)
                   \<and> (distinct ids \<longrightarrow> ids' = filter (\<lambda>i. i \<notin> row_key ` set rows) ids)
               | Inl e \<Rightarrow> \<exists>k < length rows. ids' = working_ids rows ids k
                   \<and> matched_at rows ids k \<and> resolve_stock (row_quantity (rows ! k)) = Inl e
                   \<and> (\<forall>j < k. matched_at rows ids j \<longrightarrow> resolves (rows ! j)))"
  proof (intro allI impI)
    fix r ids'
    assume c: "create = (r, ids')"
    show "subseq ids' ids
           \<and> (case r of
                 Inr st \<Rightarrow> ids' = working_ids rows ids (length rows)
                   \<and> mset ids' = mset ids - mset (map row_key rows)
                   \<and> (distinct ids \<longrightarrow> ids' = filter (\<lambda>i. i \<notin> row_key ` set rows) ids)
               | Inl e \<Rightarrow> \<exists>k < length rows. ids' = working_ids rows ids k
                   \<and> matched_at rows ids k \<and> resolve_stock (row_quantity (rows ! k)) = Inl e
                   \<and> (\<forall>j < k. matched_at rows ids j \<longrightarrow> resolves (rows ! j)))"
    proof (cases r)
      case (Inl e)
      with c inl have "stocks_loop mk rows ids [] = (Inl e, ids')" by simp
      from stocks_loop_outcome [OF this] obtain k where
        k: "k < length rows" "ids' = working_ids rows ids k" "matched_at rows ids k"
          "resolve_stock (row_quantity (rows ! k)) = Inl e"
          "\<forall>j < k. matched_at rows ids j \<longrightarrow> resolves (rows ! j)"
        by auto
      have "subseq ids' ids" unfolding k(2) by (rule working_ids_facts(1))
      with k Inl show ?thesis by auto
    next
      case (Inr st)
      with c inr obtain st0 where "stocks_loop mk rows ids [] = (Inr st0, ids')" by blast
      from stocks_loop_outcome [OF this]
      have w: "ids' = working_ids rows ids (length rows)" by simp
      have "subseq ids' ids" unfolding w by (rule working_ids_facts(1))
      moreover have "mset ids' = mset ids - mset (map row_key rows)"
        unfolding w using working_ids_facts(2) [of rows ids "length rows"] by simp
      moreover have "distinct ids \<longrightarrow> ids' = filter (\<lambda>i. i \<notin> row_key ` set rows) ids"
        unfolding w using working_ids_facts(3) [of ids rows "length rows"] by simp
      ultimately show ?thesis using Inr w by simp
    qed
  qed
qed

text \<open>
  Claim C9. Stock record building takes out of the working list of offer ids one
  occurrence for every row it matched and changes nothing else. If every matched row
  resolves, it returns a batch and leaves the list that has lost one occurrence of the
  key of each row; if row \<open>k\<close> is the first matched row that does not resolve, it raises
  the error of that row and leaves the list that has lost one occurrence of the key of each
  row before \<open>k\<close>. Whatever it leaves keeps the order of the list it was given; as a
  multiset it is that list minus the keys gone through, and for a duplicate-free list
  the ids left on return are exactly the ids that no row carries. Price record building
  returns a list whenever the prices of the matched rows convert, and it always leaves
  the list of offer ids as it was given. Both adapters.
\<close>

theorem offer_ids_frame:
  "((\<forall>j < length rows. matched_at rows ids j \<longrightarrow> resolves (rows ! j)) \<longrightarrow>
      (\<exists>st. seller_create_stocks rows ids = (Inr st, working_ids rows ids (length rows))))
   \<and> (\<forall>k e. k < length rows \<and> (\<forall>j < k. matched_at rows ids j \<longrightarrow> resolves (rows ! j))
          \<and> matched_at rows ids k \<and> resolve_stock (row_quantity (rows ! k)) = Inl e \<longrightarrow>
        seller_create_stocks rows ids = (Inl e, working_ids rows ids k))
   \<and> (\<forall>r ids'. seller_create_stocks rows ids = (r, ids') \<longrightarrow>
        subseq ids' ids
        \<and> (case r of
              Inr st \<Rightarrow> ids' = working_ids rows ids (length rows)
                \<and> mset ids' = mset ids - mset (map row_key rows)
                \<and> (distinct ids \<longrightarrow> ids' = filter (\<lambda>i. i \<notin> row_key ` set rows) ids)
            | Inl e \<Rightarrow> \<exists>k < length rows. ids' = working_ids rows ids k
                \<and> matched_at rows ids k \<and> resolve_stock (row_quantity (rows ! k)) = Inl e
                \<and> (\<forall>j < k. matched_at rows ids j \<longrightarrow> resolves (rows ! j))))
   \<and> ((\<forall>j < length rows. matched_at rows ids j \<longrightarrow> resolves (rows ! j)) \<longrightarrow>
      (\<exists>st. market_create_stocks wid date rows ids
               = (Inr st, working_ids rows ids (length rows))))
   \<and> (\<forall>k e. k < length rows \<and> (\<forall>j < k. matched_at rows ids j \<longrightarrow> resolves (rows ! j))
          \<and> matched_at rows ids k \<and> resolve_stock (row_quantity (rows ! k)) = Inl e \<longrightarrow>
        market_create_stocks wid date rows ids = (Inl e, working_ids rows ids k))
   \<and> (\<forall>r ids'. market_create_stocks wid date rows ids = (r, ids') \<longrightarrow>
        subseq ids' ids
        \<and> (case r of
              Inr st \<Rightarrow> ids' = working_ids rows ids (length rows)
                \<and> mset ids' = mset ids - mset (map row_key rows)
                \<and> (distinct ids \<longrightarrow> ids' = filter (\<lambda>i. i \<notin> row_key ` set rows) ids)
            | Inl e \<Rightarrow> \<exists>k < length rows. ids' = working_ids rows ids k
                \<and> matched_at rows ids k \<and> resolve_stock (row_quantity (rows ! k)) = Inl e
                \<and> (\<forall>j < k. matched_at rows ids j \<longrightarrow> resolves (rows ! j))))
   \<and> (\<forall>j. subseq (working_ids rows ids j) ids
          \<and> mset (working_ids rows ids j) = mset ids - mset (map row_key (take j rows)))
   \<and> snd (seller_create_prices rows ids) = ids
   \<and> snd (market_create_prices rows ids) = ids
   \<and> ((\<forall>w \<in> set rows. row_key w \<in> set ids \<longrightarrow> (\<exists>s. row_price w = PStr s)) \<longrightarrow>
        (\<exists>ps. seller_create_prices rows ids = (Inr ps, ids)))
   \<and> ((\<forall>w \<in> set rows. row_key w \<in> set ids \<longrightarrow>
          (\<exists>s. row_price w = PStr s \<and> price_conversion s \<noteq> [])) \<longrightarrow>
        (\<exists>ps. market_create_prices rows ids = (Inr ps, ids)))"
proof -
  note s = create_stocks_frame [of "seller_create_stocks rows ids"
      "\<lambda>c n. \<lparr>offer_id = c, stock = n\<rparr>" rows ids,
      OF seller_create_stocks_Inr seller_create_stocks_Inl]
  note m = create_stocks_frame [of "market_create_stocks wid date rows ids"
      "market_stock_record wid date" rows ids,
      OF market_create_stocks_Inr market_create_stocks_Inl]
  have w: "\<forall>j. subseq (working_ids rows ids j) ids
          \<and> mset (working_ids rows ids j) = mset ids - mset (map row_key (take j rows))"
    using working_ids_facts(1,2) by blast
  have c: "snd (seller_create_prices rows ids) = ids"
    by (simp add: seller_create_prices_def seller_prices_loop_eq prices_loop_ids)
  have d: "snd (market_create_prices rows ids) = ids"
    by (simp add: market_create_prices_def market_prices_loop_eq prices_loop_ids)
  have e: "(\<forall>w \<in> set rows. row_key w \<in> set ids \<longrightarrow> (\<exists>s. row_price w = PStr s)) \<longrightarrow>
        (\<exists>ps. seller_create_prices rows ids = (Inr ps, ids))"
  proof
    assume "\<forall>w \<in> set rows. row_key w \<in> set ids \<longrightarrow> (\<exists>s. row_price w = PStr s)"
    then have "\<forall>w \<in> set rows. row_key w \<in> set ids \<longrightarrow>
                 (\<exists>v. price_conversion_val (row_price w) = Inr v)"
      by (auto simp: price_conversion_val_Inr)
    from prices_loop_total [OF this]
    show "\<exists>ps. seller_create_prices rows ids = (Inr ps, ids)"
      by (simp add: seller_create_prices_def seller_prices_loop_eq)
  qed
  have f: "(\<forall>w \<in> set rows. row_key w \<in> set ids \<longrightarrow>
          (\<exists>s. row_price w = PStr s \<and> price_conversion s \<noteq> [])) \<longrightarrow>
        (\<exists>ps. market_create_prices rows ids = (Inr ps, ids))"
  proof
    assume "\<forall>w \<in> set rows. row_key w \<in> set ids \<longrightarrow>
          (\<exists>s. row_price w = PStr s \<and> price_conversion s \<noteq> [])"
    then have "\<forall>w \<in> set rows. row_key w \<in> set ids \<longrightarrow> (\<exists>v. market_price_of (row_price w) = Inr v)"
      by (auto simp: market_price_of_Inr)
    from prices_loop_total [OF this]
    show "\<exists>ps. market_create_prices rows ids = (Inr ps, ids)"
      by (simp add: market_create_prices_def market_prices_loop_eq)
  qed
  from s(1) s(2) s(3) m(1) m(2) m(3) w c d e f show ?thesis by (intro conjI)
qed

theorem offer_ids_frame_witness:
  "(\<exists>st. seller_create_stocks [example_row (PStr ''101'') example_price ''5''] [''101'', ''102'']
           = (Inr st, [''102'']))
   \<and> (\<exists>st. market_create_stocks ''wh'' ''now'' [example_row (PStr ''101'') example_price ''5'']
             [''101'', ''102''] = (Inr st, [''102'']))
   \<and> market_create_stocks ''wh'' ''now''
        [example_row (PStr ''101'') example_price ''5'',
         example_row (PStr ''102'') example_price ''null''] [''101'', ''102'']
       = (Inl ValueError, [''102''])
   \<and> seller_create_stocks [example_row (PStr ''101'') example_price ''null''] [''101'', ''102'']
       = (Inl ValueError, [''101'', ''102''])
   \<and> snd (seller_create_prices [example_row (PStr ''101'') example_price ''5''] [''101'', ''102''])
       = [''101'', ''102'']"
proof -
  let ?w5 = "example_row (PStr ''101'') example_price ''5''"
  let ?wn = "example_row (PStr ''102'') example_price ''null''"
  let ?w1n = "example_row (PStr ''101'') example_price ''null''"
  let ?I = "[''101'', ''102'']"
  have r5: "resolves ?w5" by code_simp
  have h1: "\<forall>j < length [?w5]. matched_at [?w5] ?I j \<longrightarrow> resolves ([?w5] ! j)"
    using r5 by simp
  have w1: "working_ids [?w5] ?I (length [?w5]) = [''102'']" by code_simp
  note t1 = offer_ids_frame [of "[?w5]" ?I "''wh''" "''now''"]
  have a: "\<exists>st. seller_create_stocks [?w5] ?I = (Inr st, [''102''])"
    using t1 [THEN conjunct1, THEN mp, OF h1] unfolding w1 .
  have b: "\<exists>st. market_create_stocks ''wh'' ''now'' [?w5] ?I = (Inr st, [''102''])"
    using t1 [THEN conjunct2, THEN conjunct2, THEN conjunct2, THEN conjunct1, THEN mp, OF h1]
    unfolding w1 .
  have m1: "matched_at [?w5, ?wn] ?I 1" by code_simp
  have en: "resolve_stock (row_quantity ([?w5, ?wn] ! 1)) = Inl ValueError" by code_simp
  have h2: "1 < length [?w5, ?wn] \<and> (\<forall>j < 1. matched_at [?w5, ?wn] ?I j \<longrightarrow> resolves ([?w5, ?wn] ! j))
              \<and> matched_at [?w5, ?wn] ?I 1
              \<and> resolve_stock (row_quantity ([?w5, ?wn] ! 1)) = Inl ValueError"
    using r5 m1 en by simp
  have w2: "working_ids [?w5, ?wn] ?I 1 = [''102'']" by code_simp
  note t2 = offer_ids_frame [of "[?w5, ?wn]" ?I "''wh''" "''now''"]
  have c: "market_create_stocks ''wh'' ''now'' [?w5, ?wn] ?I = (Inl ValueError, [''102''])"
    using t2 [THEN conjunct2, THEN conjunct2, THEN conjunct2, THEN conjunct2, THEN conjunct1,
        THEN spec, THEN spec, THEN mp, OF h2] unfolding w2 .
  have m0: "matched_at [?w1n] ?I 0" by code_simp
  have e0: "resolve_stock (row_quantity ([?w1n] ! 0)) = Inl ValueError" by code_simp
  have h3: "0 < length [?w1n] \<and> (\<forall>j < 0. matched_at [?w1n] ?I j \<longrightarrow> resolves ([?w1n] ! j))
              \<and> matched_at [?w1n] ?I 0
              \<and> resolve_stock (row_quantity ([?w1n] ! 0)) = Inl ValueError"
    using m0 e0 by simp
  have w3: "working_ids [?w1n] ?I 0 = ?I" by simp
  note t3 = offer_ids_frame [of "[?w1n]" ?I "''wh''" "''now''"]
  have d: "seller_create_stocks [?w1n] ?I = (Inl ValueError, ?I)"
    using t3 [THEN conjunct2, THEN conjunct1, THEN spec, THEN spec, THEN mp, OF h3]
    unfolding w3 .
  have e: "snd (seller_create_prices [?w5] ?I) = ?I"
    by (rule t1 [THEN conjunct2, THEN conjunct2, THEN conjunct2, THEN conjunct2, THEN conjunct2,
        THEN conjunct2, THEN conjunct2, THEN conjunct1])
  from a b c d e show ?thesis by (intro conjI)
qed

section \<open>Stock record builder: the batch returned\<close>

text \<open>
  Claim C1. For every list of rows and every duplicate-free list of known offer ids, stock
  record building returns a batch whenever every matched row resolves, and a batch it
  returns has exactly one record per known offer id: its ids are the known ids that
  occur among the row keys, in the order of their first row, followed by the known ids
  that no row carries, in the order they were supplied; the second part consists of
  zero-count records; no id occurs twice and the ids are the known ids; the record of an
  id carried by a row holds the count resolved from the first such row, the record of any
  other id holds zero. Both adapters, with the records written out.
\<close>

theorem stock_batch_complete:
  assumes "distinct ids"
  shows "((\<forall>j < length rows. matched_at rows ids j \<longrightarrow> resolves (rows ! j)) \<longrightarrow>
            (\<exists>st ids'. seller_create_stocks rows ids = (Inr st, ids')))
       \<and> (\<forall>st ids'. seller_create_stocks rows ids = (Inr st, ids') \<longrightarrow>
            map offer_id st = first_occurrences (filter (\<lambda>c. c \<in> set ids) (map row_key rows))
                                @ filter (\<lambda>i. i \<notin> row_key ` set rows) ids
          \<and> drop (length (first_occurrences (filter (\<lambda>c. c \<in> set ids) (map row_key rows)))) st
              = map (\<lambda>i. \<lparr>offer_id = i, stock = 0\<rparr>) (filter (\<lambda>i. i \<notin> row_key ` set rows) ids)
          \<and> distinct (map offer_id st)
          \<and> set (map offer_id st) = set ids
          \<and> (\<forall>i \<in> set ids.
               (case find (\<lambda>w. row_key w = i) rows of
                  None \<Rightarrow> \<lparr>offer_id = i, stock = 0\<rparr> \<in> set st
                | Some w \<Rightarrow> \<exists>n. resolve_stock (row_quantity w) = Inr n
                                 \<and> \<lparr>offer_id = i, stock = n\<rparr> \<in> set st)))
       \<and> ((\<forall>j < length rows. matched_at rows ids j \<longrightarrow> resolves (rows ! j)) \<longrightarrow>
            (\<exists>st ids'. market_create_stocks wid date rows ids = (Inr st, ids')))
       \<and> (\<forall>st ids'. market_create_stocks wid date rows ids = (Inr st, ids') \<longrightarrow>
            map sku st = first_occurrences (filter (\<lambda>c. c \<in> set ids) (map row_key rows))
                           @ filter (\<lambda>i. i \<notin> row_key ` set rows) ids
          \<and> drop (length (first_occurrences (filter (\<lambda>c. c \<in> set ids) (map row_key rows)))) st
              = map (\<lambda>i. \<lparr>sku = i, warehouseId = wid,
                          items = [\<lparr>item_count = 0, item_type = ''FIT'', updatedAt = date\<rparr>]\<rparr>)
                  (filter (\<lambda>i. i \<notin> row_key ` set rows) ids)
          \<and> distinct (map sku st)
          \<and> set (map sku st) = set ids
          \<and> (\<forall>i \<in> set ids.
               (case find (\<lambda>w. row_key w = i) rows of
                  None \<Rightarrow> \<lparr>sku = i, warehouseId = wid,
                           items = [\<lparr>item_count = 0, item_type = ''FIT'', updatedAt = date\<rparr>]\<rparr>
                          \<in> set st
                | Some w \<Rightarrow> \<exists>n. resolve_stock (row_quantity w) = Inr n
                    \<and> \<lparr>sku = i, warehouseId = wid,
                        items = [\<lparr>item_count = n, item_type = ''FIT'', updatedAt = date\<rparr>]\<rparr>
                      \<in> set st)))"
proof (intro conjI allI impI)
  assume "\<forall>j < length rows. matched_at rows ids j \<longrightarrow> resolves (rows ! j)"
  from stocks_loop_returns [OF this, of "\<lambda>c n. \<lparr>offer_id = c, stock = n\<rparr>" "[]"]
  show "\<exists>st ids'. seller_create_stocks rows ids = (Inr st, ids')"
    using seller_create_stocks_Inr by blast
next
  assume "\<forall>j < length rows. matched_at rows ids j \<longrightarrow> resolves (rows ! j)"
  from stocks_loop_returns [OF this, of "market_stock_record wid date" "[]"]
  show "\<exists>st ids'. market_create_stocks wid date rows ids = (Inr st, ids')"
    using market_create_stocks_Inr by blast
next
  fix st ids'
  assume "seller_create_stocks rows ids = (Inr st, ids')"
  then obtain st0 where run: "stocks_loop (\<lambda>c n. \<lparr>offer_id = c, stock = n\<rparr>) rows ids [] = (Inr st0, ids')"
    and st: "st = st0 @ map (\<lambda>i. \<lparr>offer_id = i, stock = 0\<rparr>) ids'"
    using seller_create_stocks_Inr by blast
  have key: "\<forall>c n. offer_id \<lparr>offer_id = c, stock = n\<rparr> = c" by simp
  note b = stock_batch [where key = offer_id, OF key assms run st]
  show "map offer_id st = first_occurrences (filter (\<lambda>c. c \<in> set ids) (map row_key rows))
                                @ filter (\<lambda>i. i \<notin> row_key ` set rows) ids"
    by (rule b(1))
  show "drop (length (first_occurrences (filter (\<lambda>c. c \<in> set ids) (map row_key rows)))) st
              = map (\<lambda>i. \<lparr>offer_id = i, stock = 0\<rparr>) (filter (\<lambda>i. i \<notin> row_key ` set rows) ids)"
    by (rule b(2))
  show "distinct (map offer_id st)" by (rule b(3))
  show "set (map offer_id st) = set ids" by (rule b(4))
  show "\<forall>i \<in> set ids.
               (case find (\<lambda>w. row_key w = i) rows of
                  None \<Rightarrow> \<lparr>offer_id = i, stock = 0\<rparr> \<in> set st
                | Some w \<Rightarrow> \<exists>n. resolve_stock (row_quantity w) = Inr n
                                 \<and> \<lparr>offer_id = i, stock = n\<rparr> \<in> set st)"
    by (rule b(5))
next
  fix st ids'
  assume "market_create_stocks wid date rows ids = (Inr st, ids')"
  then obtain st0 where run: "stocks_loop (market_stock_record wid date) rows ids [] = (Inr st0, ids')"
    and st: "st = st0 @ map (\<lambda>i. market_stock_record wid date i 0) ids'"
    using market_create_stocks_Inr by blast
  have key: "\<forall>c n. sku (market_stock_record wid date c n) = c"
    by (simp add: market_stock_record_def)
  note b = stock_batch [where key = sku, OF key assms run st]
  show "map sku st = first_occurrences (filter (\<lambda>c. c \<in> set ids) (map row_key rows))
                           @ filter (\<lambda>i. i \<notin> row_key ` set rows) ids"
    by (rule b(1))
  show "drop (length (first_occurrences (filter (\<lambda>c. c \<in> set ids) (map row_key rows)))) st
              = map (\<lambda>i. \<lparr>sku = i, warehouseId = wid,
                          items = [\<lparr>item_count = 0, item_type = ''FIT'', updatedAt = date\<rparr>]\<rparr>)
                  (filter (\<lambda>i. i \<notin> row_key ` set rows) ids)"
    using b(2) by (simp add: market_stock_record_def)
  show "distinct (map sku st)" by (rule b(3))
  show "set (map sku st) = set ids" by (rule b(4))
  show "\<forall>i \<in> set ids.
               (case find (\<lambda>w. row_key w = i) rows of
                  None \<Rightarrow> \<lparr>sku = i, warehouseId = wid,
                           items = [\<lparr>item_count = 0, item_type = ''FIT'', updatedAt = date\<rparr>]\<rparr>
                          \<in> set st
                | Some w \<Rightarrow> \<exists>n. resolve_stock (row_quantity w) = Inr n
                    \<and> \<lparr>sku = i, warehouseId = wid,
                        items = [\<lparr>item_count = n, item_type = ''FIT'', updatedAt = date\<rparr>]\<rparr>
                      \<in> set st)"
    using b(5) unfolding market_stock_record_def .
qed

theorem stock_batch_complete_witness:
  "distinct [''102'', ''101'']
   \<and> seller_create_stocks
        [example_row (PStr ''103'') example_price ''7'', example_row (PStr ''101'') example_price ''5'',
         example_row (PStr ''101'') example_price ''9''] [''102'', ''101'']
       = (Inr [\<lparr>offer_id = ''101'', stock = 5\<rparr>, \<lparr>offer_id = ''102'', stock = 0\<rparr>], [''102''])
   \<and> map offer_id [\<lparr>offer_id = ''101'', stock = 5\<rparr>, \<lparr>offer_id = ''102'', stock = 0\<rparr>]
       = first_occurrences (filter (\<lambda>c. c \<in> set [''102'', ''101''])
           (map row_key [example_row (PStr ''103'') example_price ''7'',
              example_row (PStr ''101'') example_price ''5'',
              example_row (PStr ''101'') example_price ''9'']))
         @ filter (\<lambda>i. i \<notin> row_key ` set [example_row (PStr ''103'') example_price ''7'',
              example_row (PStr ''101'') example_price ''5'',
              example_row (PStr ''101'') example_price ''9'']) [''102'', ''101'']
   \<and> market_create_stocks ''wh'' ''now''
        [example_row (PStr ''103'') example_price ''7'', example_row (PStr ''101'') example_price ''5'',
         example_row (PStr ''101'') example_price ''9''] [''102'', ''101'']
       = (Inr [\<lparr>sku = ''101'', warehouseId = ''wh'',
                 items = [\<lparr>item_count = 5, item_type = ''FIT'', updatedAt = ''now''\<rparr>]\<rparr>,
               \<lparr>sku = ''102'', warehouseId = ''wh'',
                 items = [\<lparr>item_count = 0, item_type = ''FIT'', updatedAt = ''now''\<rparr>]\<rparr>],
          [''102''])
   \<and> map sku [\<lparr>sku = ''101'', warehouseId = ''wh'',
                 items = [\<lparr>item_count = 5, item_type = ''FIT'', updatedAt = ''now''\<rparr>]\<rparr>,
               \<lparr>sku = ''102'', warehouseId = ''wh'',
                 items = [\<lparr>item_count = 0, item_type = ''FIT'', updatedAt = ''now''\<rparr>]\<rparr>]
       = first_occurrences (filter (\<lambda>c. c \<in> set [''102'', ''101''])
           (map row_key [example_row (PStr ''103'') example_price ''7'',
              example_row (PStr ''101'') example_price ''5'',
              example_row (PStr ''101'') example_price ''9'']))
         @ filter (\<lambda>i. i \<notin> row_key ` set [example_row (PStr ''103'') example_price ''7'',
              example_row (PStr ''101'') example_price ''5'',
              example_row (PStr ''101'') example_price ''9'']) [''102'', ''101'']
   \<and> (\<exists>st ids'. market_create_stocks ''wh'' ''now''
          [example_row (PStr ''101'') example_price ''5''] [''102'', ''101''] = (Inr st, ids'))"
proof -
  let ?R = "[example_row (PStr ''103'') example_price ''7'',
         example_row (PStr ''101'') example_price ''5'',
         example_row (PStr ''101'') example_price ''9'']"
  let ?I = "[''102'', ''101'']"
  have d: "distinct ?I" by simp
  have ev: "seller_create_stocks ?R ?I
       = (Inr [\<lparr>offer_id = ''101'', stock = 5\<rparr>, \<lparr>offer_id = ''102'', stock = 0\<rparr>], [''102''])"
    by code_simp
  have evm: "market_create_stocks ''wh'' ''now'' ?R ?I
       = (Inr [\<lparr>sku = ''101'', warehouseId = ''wh'',
                 items = [\<lparr>item_count = 5, item_type = ''FIT'', updatedAt = ''now''\<rparr>]\<rparr>,
               \<lparr>sku = ''102'', warehouseId = ''wh'',
                 items = [\<lparr>item_count = 0, item_type = ''FIT'', updatedAt = ''now''\<rparr>]\<rparr>],
          [''102''])"
    by code_simp
  note t = stock_batch_complete [OF d, of ?R "''wh''" "''now''"]
  note a = t [THEN conjunct2, THEN conjunct1, THEN spec, THEN spec, THEN mp, OF ev, THEN conjunct1]
  note b = t [THEN conjunct2, THEN conjunct2, THEN conjunct2, THEN spec, THEN spec, THEN mp, OF evm,
      THEN conjunct1]
  have r5: "resolves (example_row (PStr ''101'') example_price ''5'')" by code_simp
  have h: "\<forall>j < length [example_row (PStr ''101'') example_price ''5''].
             matched_at [example_row (PStr ''101'') example_price ''5''] ?I j \<longrightarrow>
             resolves ([example_row (PStr ''101'') example_price ''5''] ! j)"
    using r5 by simp
  note c = stock_batch_complete [OF d, of "[example_row (PStr ''101'') example_price ''5'']"
      "''wh''" "''now''", THEN conjunct2, THEN conjunct2, THEN conjunct1, THEN mp, OF h]
  from d ev a evm b c show ?thesis by (intro conjI)
qed

section \<open>Quantity resolution: the records\<close>

lemma int_of_str_no_break_space: "int_of_str [CHR 0xA0, CHR ''5''] = Inr 5"
  by code_simp

text \<open>
  Claim C2. Take a row whose quantity cell is a string \<open>s\<close> and that the stock loop
  matches, that is, the rows before it were processed without an exception, leaving the
  records \<open>acc\<close> and the working list \<open>ids1\<close>, and the key of the row is in
  \<open>ids1\<close>. Then \<^verbatim>\<open>">10"\<close> appends a record with count 100 and \<^verbatim>\<open>"1"\<close> one with
  count 0; any other string that \<^verbatim>\<open>int\<close> accepts appends a record with its integer
  value, which for a non-empty string of decimal digits is its decimal value; any other
  string makes \<^verbatim>\<open>create_stocks\<close> raise \<^verbatim>\<open>ValueError\<close> whatever rows follow, and no
  batch is returned. Whenever a batch is returned, the record at the position of the row
  carries the resolved count. Both adapters, with the records written out.
\<close>

theorem quantity_resolution:
  assumes "row_quantity w = PStr s"
  shows "(\<forall>pre ids acc ids1.
            seller_stocks_loop pre ids [] = (Inr acc, ids1) \<and> row_key w \<in> set ids1 \<longrightarrow>
              (s = ''>10'' \<longrightarrow> seller_stocks_loop (pre @ [w]) ids []
                 = (Inr (acc @ [\<lparr>offer_id = row_key w, stock = 100\<rparr>]), remove1 (row_key w) ids1))
            \<and> (s = ''1'' \<longrightarrow> seller_stocks_loop (pre @ [w]) ids []
                 = (Inr (acc @ [\<lparr>offer_id = row_key w, stock = 0\<rparr>]), remove1 (row_key w) ids1))
            \<and> (\<forall>v. s \<noteq> ''>10'' \<and> s \<noteq> ''1'' \<and> int_of_str s = Inr v \<longrightarrow>
                 seller_stocks_loop (pre @ [w]) ids []
                   = (Inr (acc @ [\<lparr>offer_id = row_key w, stock = v\<rparr>]), remove1 (row_key w) ids1))
            \<and> (s \<noteq> ''>10'' \<and> s \<noteq> ''1'' \<and> (\<forall>v. int_of_str s \<noteq> Inr v) \<longrightarrow>
                 (\<forall>post. seller_create_stocks (pre @ w # post) ids = (Inl ValueError, ids1)))
            \<and> (\<forall>post st ids'. seller_create_stocks (pre @ w # post) ids = (Inr st, ids') \<longrightarrow>
                 length acc < length st
                 \<and> (\<exists>n. resolve_stock (PStr s) = Inr n
                        \<and> st ! length acc = \<lparr>offer_id = row_key w, stock = n\<rparr>)))
       \<and> (\<forall>pre ids acc ids1.
            market_stocks_loop wid date pre ids [] = (Inr acc, ids1) \<and> row_key w \<in> set ids1 \<longrightarrow>
              (s = ''>10'' \<longrightarrow> market_stocks_loop wid date (pre @ [w]) ids []
                 = (Inr (acc @ [\<lparr>sku = row_key w, warehouseId = wid,
                     items = [\<lparr>item_count = 100, item_type = ''FIT'', updatedAt = date\<rparr>]\<rparr>]),
                    remove1 (row_key w) ids1))
            \<and> (s = ''1'' \<longrightarrow> market_stocks_loop wid date (pre @ [w]) ids []
                 = (Inr (acc @ [\<lparr>sku = row_key w, warehouseId = wid,
                     items = [\<lparr>item_count = 0, item_type = ''FIT'', updatedAt = date\<rparr>]\<rparr>]),
                    remove1 (row_key w) ids1))
            \<and> (\<forall>v. s \<noteq> ''>10'' \<and> s \<noteq> ''1'' \<and> int_of_str s = Inr v \<longrightarrow>
                 market_stocks_loop wid date (pre @ [w]) ids []
                   = (Inr (acc @ [\<lparr>sku = row_key w, warehouseId = wid,
                     items = [\<lparr>item_count = v, item_type = ''FIT'', updatedAt = date\<rparr>]\<rparr>]),
                      remove1 (row_key w) ids1))
            \<and> (s \<noteq> ''>10'' \<and> s \<noteq> ''1'' \<and> (\<forall>v. int_of_str s \<noteq> Inr v) \<longrightarrow>
                 (\<forall>post. market_create_stocks wid date (pre @ w # post) ids
                           = (Inl ValueError, ids1)))
            \<and> (\<forall>post st ids'.
                 market_create_stocks wid date (pre @ w # post) ids = (Inr st, ids') \<longrightarrow>
                 length acc < length st
                 \<and> (\<exists>n. resolve_stock (PStr s) = Inr n
                        \<and> st ! length acc = \<lparr>sku = row_key w, warehouseId = wid,
                     items = [\<lparr>item_count = n, item_type = ''FIT'', updatedAt = date\<rparr>]\<rparr>)))
       \<and> (s \<noteq> [] \<and> list_all is_digit s \<longrightarrow> int_of_str s = Inr (int (dec_value s)))"
proof (intro conjI allI impI; (elim conjE)?)
  fix pre ids acc ids1
  assume pre0: "seller_stocks_loop pre ids [] = (Inr acc, ids1)" and m: "row_key w \<in> set ids1"
  from pre0 have pre: "stocks_loop (\<lambda>c n. \<lparr>offer_id = c, stock = n\<rparr>) pre ids [] = (Inr acc, ids1)"
    by (simp add: seller_stocks_loop_eq)
  note r = quantity_row [OF assms pre m]
  {
    assume "s = ''>10''"
    with r(1) show "seller_stocks_loop (pre @ [w]) ids []
                 = (Inr (acc @ [\<lparr>offer_id = row_key w, stock = 100\<rparr>]), remove1 (row_key w) ids1)"
      by (simp add: seller_stocks_loop_eq)
  }
  {
    assume "s = ''1''"
    with r(2) show "seller_stocks_loop (pre @ [w]) ids []
                 = (Inr (acc @ [\<lparr>offer_id = row_key w, stock = 0\<rparr>]), remove1 (row_key w) ids1)"
      by (simp add: seller_stocks_loop_eq)
  }
  {
    fix v
    assume "s \<noteq> ''>10''" "s \<noteq> ''1''" "int_of_str s = Inr v"
    with r(3) show "seller_stocks_loop (pre @ [w]) ids []
                   = (Inr (acc @ [\<lparr>offer_id = row_key w, stock = v\<rparr>]), remove1 (row_key w) ids1)"
      by (simp add: seller_stocks_loop_eq)
  }
  {
    fix post
    assume "s \<noteq> ''>10''" "s \<noteq> ''1''" "\<forall>v. int_of_str s \<noteq> Inr v"
    with r(4) show "seller_create_stocks (pre @ w # post) ids = (Inl ValueError, ids1)"
      by (simp add: seller_create_stocks_Inl)
  }
  {
    fix post st ids'
    assume "seller_create_stocks (pre @ w # post) ids = (Inr st, ids')"
    then obtain st0 where
      run: "stocks_loop (\<lambda>c n. \<lparr>offer_id = c, stock = n\<rparr>) (pre @ w # post) ids [] = (Inr st0, ids')"
      and st: "st = st0 @ map (\<lambda>i. \<lparr>offer_id = i, stock = 0\<rparr>) ids'"
      using seller_create_stocks_Inr by blast
    from r(5) run obtain n where n: "length acc < length st0" "resolve_stock (PStr s) = Inr n"
      "st0 ! length acc = \<lparr>offer_id = row_key w, stock = n\<rparr>" by blast
    with st show "length acc < length st" by simp
    from n st show "\<exists>n. resolve_stock (PStr s) = Inr n
                        \<and> st ! length acc = \<lparr>offer_id = row_key w, stock = n\<rparr>"
      by (simp add: nth_append)
  }
next
  fix pre ids acc ids1
  assume pre0: "market_stocks_loop wid date pre ids [] = (Inr acc, ids1)"
    and m: "row_key w \<in> set ids1"
  from pre0 have pre: "stocks_loop (market_stock_record wid date) pre ids [] = (Inr acc, ids1)"
    by (simp add: market_stocks_loop_eq)
  note r = quantity_row [OF assms pre m]
  {
    assume "s = ''>10''"
    with r(1) show "market_stocks_loop wid date (pre @ [w]) ids []
                 = (Inr (acc @ [\<lparr>sku = row_key w, warehouseId = wid,
                     items = [\<lparr>item_count = 100, item_type = ''FIT'', updatedAt = date\<rparr>]\<rparr>]),
                    remove1 (row_key w) ids1)"
      by (simp add: market_stocks_loop_eq market_stock_record_def)
  }
  {
    assume "s = ''1''"
    with r(2) show "market_stocks_loop wid date (pre @ [w]) ids []
                 = (Inr (acc @ [\<lparr>sku = row_key w, warehouseId = wid,
                     items = [\<lparr>item_count = 0, item_type = ''FIT'', updatedAt = date\<rparr>]\<rparr>]),
                    remove1 (row_key w) ids1)"
      by (simp add: market_stocks_loop_eq market_stock_record_def)
  }
  {
    fix v
    assume "s \<noteq> ''>10''" "s \<noteq> ''1''" "int_of_str s = Inr v"
    with r(3) show "market_stocks_loop wid date (pre @ [w]) ids []
                   = (Inr (acc @ [\<lparr>sku = row_key w, warehouseId = wid,
                     items = [\<lparr>item_count = v, item_type = ''FIT'', updatedAt = date\<rparr>]\<rparr>]),
                      remove1 (row_key w) ids1)"
      by (simp add: market_stocks_loop_eq market_stock_record_def)
  }
  {
    fix post
    assume "s \<noteq> ''>10''" "s \<noteq> ''1''" "\<forall>v. int_of_str s \<noteq> Inr v"
    with r(4) show "market_create_stocks wid date (pre @ w # post) ids = (Inl ValueError, ids1)"
      by (simp add: market_create_stocks_Inl)
  }
  {
    fix post st ids'
    assume "market_create_stocks wid date (pre @ w # post) ids = (Inr st, ids')"
    then obtain st0 where
      run: "stocks_loop (market_stock_record wid date) (pre @ w # post) ids [] = (Inr st0, ids')"
      and st: "st = st0 @ map (\<lambda>i. market_stock_record wid date i 0) ids'"
      using market_create_stocks_Inr by blast
    from r(5) run obtain n where n: "length acc < length st0" "resolve_stock (PStr s) = Inr n"
      "st0 ! length acc = \<lparr>sku = row_key w, warehouseId = wid,
                     items = [\<lparr>item_count = n, item_type = ''FIT'', updatedAt = date\<rparr>]\<rparr>" unfolding market_stock_record_def by blast
    with st show "length acc < length st" by simp
    from n st show "\<exists>n. resolve_stock (PStr s) = Inr n
                        \<and> st ! length acc = \<lparr>sku = row_key w, warehouseId = wid,
                     items = [\<lparr>item_count = n, item_type = ''FIT'', updatedAt = date\<rparr>]\<rparr>"
      by (simp add: nth_append market_stock_record_def)
  }
next
  assume "s \<noteq> []" "list_all is_digit s"
  then show "int_of_str s = Inr (int (dec_value s))" by (rule int_of_str_digits)
qed

theorem quantity_resolution_witness:
  "seller_stocks_loop ([] @ [example_row (PStr ''101'') example_price ''>10'']) [''101''] []
     = (Inr ([] @ [\<lparr>offer_id = ''101'', stock = 100\<rparr>]), remove1 ''101'' [''101''])
   \<and> market_stocks_loop ''wh'' ''now'' ([] @ [example_row (PStr ''101'') example_price ''7'']) [''101''] []
     = (Inr ([] @ [\<lparr>sku = ''101'', warehouseId = ''wh'',
                     items = [\<lparr>item_count = 7, item_type = ''FIT'', updatedAt = ''now''\<rparr>]\<rparr>]), remove1 ''101'' [''101''])
   \<and> seller_create_stocks ([] @ example_row (PStr ''101'') example_price ''null'' # []) [''101'']
     = (Inl ValueError, [''101''])"
proof -
  have q1: "row_quantity (example_row (PStr ''101'') example_price ''>10'') = PStr ''>10''"
    and q2: "row_quantity (example_row (PStr ''101'') example_price ''7'') = PStr ''7''"
    and q3: "row_quantity (example_row (PStr ''101'') example_price ''null'') = PStr ''null''"
    by (simp_all add: example_row_def)
  have k: "row_key (example_row (PStr ''101'') p q) = ''101''" for p q
    by (simp add: example_row_def)
  have p1: "seller_stocks_loop [] [''101''] [] = (Inr [], [''101''])
              \<and> row_key (example_row (PStr ''101'') p q) \<in> set [''101'']" for p q
    by (simp add: example_row_def)
  have p2: "market_stocks_loop ''wh'' ''now'' [] [''101''] [] = (Inr [], [''101''])
              \<and> row_key (example_row (PStr ''101'') p q) \<in> set [''101'']" for p q
    by (simp add: example_row_def)
  have i7: "''7'' \<noteq> ''>10'' \<and> ''7'' \<noteq> ''1'' \<and> int_of_str ''7'' = Inr 7" by code_simp
  have "int_of_str ''null'' = Inl ValueError" by code_simp
  then have inull: "''null'' \<noteq> ''>10'' \<and> ''null'' \<noteq> ''1'' \<and> (\<forall>v. int_of_str ''null'' \<noteq> Inr v)"
    by simp
  note t1 = quantity_resolution [OF q1, of "''wh''" "''now''", THEN conjunct1,
      THEN spec, THEN spec, THEN spec, THEN spec, THEN mp, OF p1]
  note t2 = quantity_resolution [OF q2, of "''wh''" "''now''", THEN conjunct2, THEN conjunct1,
      THEN spec, THEN spec, THEN spec, THEN spec, THEN mp, OF p2]
  note t3 = quantity_resolution [OF q3, of "''wh''" "''now''", THEN conjunct1,
      THEN spec, THEN spec, THEN spec, THEN spec, THEN mp, OF p1]
  have a: "seller_stocks_loop ([] @ [example_row (PStr ''101'') example_price ''>10'']) [''101''] []
     = (Inr ([] @ [\<lparr>offer_id = ''101'', stock = 100\<rparr>]), remove1 ''101'' [''101''])"
    using t1 [THEN conjunct1, THEN mp, OF refl] unfolding k .
  have b: "market_stocks_loop ''wh'' ''now'' ([] @ [example_row (PStr ''101'') example_price ''7'']) [''101''] []
     = (Inr ([] @ [\<lparr>sku = ''101'', warehouseId = ''wh'',
                     items = [\<lparr>item_count = 7, item_type = ''FIT'', updatedAt = ''now''\<rparr>]\<rparr>]), remove1 ''101'' [''101''])"
    using t2 [THEN conjunct2, THEN conjunct2, THEN conjunct1, THEN spec, THEN mp, OF i7]
    unfolding k .
  have c: "seller_create_stocks ([] @ example_row (PStr ''101'') example_price ''null'' # []) [''101'']
     = (Inl ValueError, [''101''])"
    using t3 [THEN conjunct2, THEN conjunct2, THEN conjunct2, THEN conjunct1, THEN mp, OF inull,
        THEN spec, of "[]"] .
  from a b c show ?thesis by (intro conjI)
qed

section \<open>The decimal string of an integer code\<close>

lemma digit_char_simps:
  assumes "d < 10"
  shows "is_digit (digit_char d)" and "digit_val (digit_char d) = d"
  using assms by (simp_all add: is_digit_def digit_char_def digit_val_def)

lemma digit_char_digit_val: "is_digit c \<Longrightarrow> digit_char (digit_val c) = c"
  by (simp add: is_digit_def digit_char_def digit_val_def)

lemma digit_val_less: "is_digit c \<Longrightarrow> digit_val c < 10"
  by (auto simp: is_digit_def digit_val_def)

lemma digit_val_zero:
  assumes "is_digit c"
  shows "digit_val c = 0 \<longleftrightarrow> c = CHR ''0''"
proof
  assume "digit_val c = 0"
  with assms have "of_char c = (48::nat)" by (simp add: is_digit_def digit_val_def)
  then have "of_char c = (of_char CHR ''0'' :: nat)" by simp
  then show "c = CHR ''0''" by (simp only: of_char_eq_iff)
next
  assume "c = CHR ''0''"
  then show "digit_val c = 0" by (simp add: digit_val_def)
qed

lemma dec_value_snoc: "dec_value (ds @ [c]) = 10 * dec_value ds + digit_val c"
  by (simp add: dec_value_def)

lemma dec_value_single: "dec_value [c] = digit_val c"
  by (simp add: dec_value_def)

lemma str_nat_digits: "str_nat n \<noteq> [] \<and> list_all is_digit (str_nat n)"
proof (induction n rule: str_nat.induct)
  case (1 n)
  show ?case
  proof (cases "n < 10")
    case True
    then show ?thesis by (subst (1 2) str_nat.simps) (simp add: digit_char_simps)
  next
    case False
    with 1 have "list_all is_digit (str_nat (n div 10))" by simp
    moreover have "is_digit (digit_char (n mod 10))" by (simp add: digit_char_simps)
    ultimately show ?thesis using False by (subst (1 2) str_nat.simps) simp
  qed
qed

lemma dec_value_str_nat: "dec_value (str_nat n) = n"
proof (induction n rule: str_nat.induct)
  case (1 n)
  show ?case
  proof (cases "n < 10")
    case True
    then show ?thesis
      by (subst str_nat.simps) (simp add: dec_value_single digit_char_simps)
  next
    case False
    with 1 have "dec_value (str_nat (n div 10)) = n div 10" by simp
    then show ?thesis using False
      by (subst str_nat.simps) (simp add: dec_value_snoc digit_char_simps)
  qed
qed

lemma hd_str_nat: "hd (str_nat n) = CHR ''0'' \<Longrightarrow> n = 0"
proof (induction n rule: str_nat.induct)
  case (1 n)
  show ?case
  proof (cases "n < 10")
    case True
    with 1(2) have "digit_char n = CHR ''0''" by (subst (asm) str_nat.simps) simp
    then have "digit_val (digit_char n) = 0" by (simp add: digit_val_def)
    with True show ?thesis by (simp add: digit_char_simps)
  next
    case False
    have ne: "str_nat (n div 10) \<noteq> []" using str_nat_digits by blast
    from False 1(2) have "hd (str_nat (n div 10) @ [digit_char (n mod 10)]) = CHR ''0''"
      by (subst (asm) str_nat.simps) simp
    with ne have "hd (str_nat (n div 10)) = CHR ''0''" by simp
    with 1(1) False have "n div 10 = 0" by simp
    with False show ?thesis by simp
  qed
qed

lemma dec_value_pos:
  "ds \<noteq> [] \<Longrightarrow> list_all is_digit ds \<Longrightarrow> hd ds \<noteq> CHR ''0'' \<Longrightarrow> 0 < dec_value ds"
proof (induction ds rule: rev_induct)
  case Nil
  then show ?case by simp
next
  case (snoc c xs)
  show ?case
  proof (cases "xs = []")
    case True
    with snoc.prems have "is_digit c" "c \<noteq> CHR ''0''" by simp_all
    then have "digit_val c \<noteq> 0" by (simp add: digit_val_zero)
    with True show ?thesis by (simp add: dec_value_single)
  next
    case False
    with snoc have "0 < dec_value xs" by simp
    then show ?thesis by (simp add: dec_value_snoc)
  qed
qed

lemma str_nat_unique:
  "ds \<noteq> [] \<Longrightarrow> list_all is_digit ds \<Longrightarrow> (hd ds = CHR ''0'' \<longrightarrow> ds = ''0'')
     \<Longrightarrow> str_nat (dec_value ds) = ds"
proof (induction ds rule: rev_induct)
  case Nil
  then show ?case by simp
next
  case (snoc c xs)
  from snoc.prems have c: "is_digit c" by simp
  show ?case
  proof (cases "xs = []")
    case True
    have "digit_val c < 10" using c by (rule digit_val_less)
    then have "str_nat (digit_val c) = [digit_char (digit_val c)]"
      by (subst str_nat.simps) simp
    with True c show ?thesis by (simp add: dec_value_single digit_char_digit_val)
  next
    case False
    then have hd: "hd (xs @ [c]) = hd xs" by simp
    have nz: "hd xs \<noteq> CHR ''0''"
    proof
      assume "hd xs = CHR ''0''"
      with hd snoc.prems(3) have "xs @ [c] = ''0''" by simp
      with False show False by (cases xs) simp_all
    qed
    from snoc.prems have dx: "list_all is_digit xs" by simp
    from snoc.IH [OF False dx] nz have ih: "str_nat (dec_value xs) = xs" by simp
    have pos: "0 < dec_value xs" by (rule dec_value_pos [OF False dx nz])
    have lt: "digit_val c < 10" using c by (rule digit_val_less)
    let ?v = "10 * dec_value xs + digit_val c"
    have "\<not> ?v < 10" using pos by simp
    moreover have "?v div 10 = dec_value xs" using lt by simp
    moreover have "?v mod 10 = digit_val c" using lt by simp
    ultimately have "str_nat ?v = str_nat (dec_value xs) @ [digit_char (digit_val c)]"
      by (subst str_nat.simps) (simp only: if_False)
    with ih c show ?thesis by (simp add: dec_value_snoc digit_char_digit_val)
  qed
qed

lemma int_of_str_minus_digits:
  assumes "s \<noteq> []" and "list_all is_digit s"
  shows "int_of_str (CHR ''-'' # s) = Inr (- int (dec_value s))"
proof -
  from assms have h: "is_digit (hd s)" and l: "is_digit (last s)"
    by (auto simp: list_all_iff)
  have t: "dropWhile is_space (CHR ''-'' # s) = CHR ''-'' # s"
    by (simp add: is_space_def)
  have b: "takeWhile (\<lambda>c. is_digit c \<or> c = CHR ''_'') s = s"
    using assms(2) by (simp add: list_all_iff)
  have r: "dropWhile (\<lambda>c. is_digit c \<or> c = CHR ''_'') s = []"
    using assms(2) by (simp add: list_all_iff)
  have f: "filter is_digit s = s"
    using assms(2) by (simp add: list_all_iff)
  have ok: "digit_body_ok s"
    using assms h l no_double_underscore_digits by (simp add: digit_body_ok_def)
  have u: "(if CHR ''-'' # s \<noteq> [] \<and> (hd (CHR ''-'' # s) = CHR ''+'' \<or> hd (CHR ''-'' # s) = CHR ''-'')
            then tl (CHR ''-'' # s) else CHR ''-'' # s) = s"
    by simp
  have n: "(CHR ''-'' # s \<noteq> [] \<and> hd (CHR ''-'' # s) = CHR ''-'') = True" by simp
  show ?thesis
    unfolding int_of_str_def Let_def t u n b r f using ok by simp
qed

lemma str_int_nonneg: "0 \<le> n \<Longrightarrow> str_int n = str_nat (nat n)"
  by (simp add: str_int_def)

lemma str_int_neg: "n < 0 \<Longrightarrow> str_int n = CHR ''-'' # str_int (- n)"
  by (simp add: str_int_def)

lemma int_of_str_str_int: "int_of_str (str_int n) = Inr n"
proof (cases "n < 0")
  case True
  then show ?thesis
    using int_of_str_minus_digits [of "str_nat (nat (- n))"] str_nat_digits [of "nat (- n)"]
    by (simp add: str_int_def dec_value_str_nat)
next
  case False
  then show ?thesis
    using int_of_str_digits [of "str_nat (nat n)"] str_nat_digits [of "nat n"]
    by (simp add: str_int_def dec_value_str_nat)
qed

lemma str_int_canonical:
  assumes "0 \<le> n"
  shows "str_int n \<noteq> []" "list_all is_digit (str_int n)" "hd (str_int n) = CHR ''0'' \<longrightarrow> n = 0"
  using assms str_nat_digits [of "nat n"] hd_str_nat [of "nat n"]
  by (auto simp: str_int_def)

lemma str_int_unique:
  assumes "d \<noteq> []" "list_all is_digit d" "hd d = CHR ''0'' \<longrightarrow> d = ''0''" "int (dec_value d) = n"
  shows "str_int n = d"
proof -
  from assms(4) have "0 \<le> n" "nat n = dec_value d" by auto
  then show ?thesis
    using str_nat_unique [OF assms(1,2,3)] by (simp add: str_int_def)
qed

text \<open>
  Claim C10. Stock and price record building compare \<^verbatim>\<open>str\<close> of the code cell with
  the known offer ids. A row whose code is the integer \<open>n\<close> has the decimal string of
  \<open>n\<close> as its key: the string that \<^verbatim>\<open>int\<close> reads back as \<open>n\<close>, made of digits
  without a leading zero (after a minus sign when \<open>n\<close> is negative), so that every offer
  id written in that form with value \<open>n\<close> is this key. Such a row is matched when that
  string is a known id: the stock loop appends a record under that string, and a returned
  price list holds a record under it. The offer-id or sku field of the record emitted for
  a row is always the key of the row: at the position of a matched row in a returned
  stock batch, and for every record of a returned price list, in the order of the rows.
  The builders return when the cells of the matched rows convert. Both adapters.
\<close>

theorem code_coercion:
  "(row_code w = PInt n \<longrightarrow> row_key w = str_int n)
   \<and> str_int 101 = ''101''
   \<and> (\<forall>pre ids acc ids1 q.
        seller_stocks_loop pre ids [] = (Inr acc, ids1) \<and> row_code w = PInt n
          \<and> str_int n \<in> set ids1 \<and> resolve_stock (row_quantity w) = Inr q \<longrightarrow>
        seller_stocks_loop (pre @ [w]) ids []
          = (Inr (acc @ [\<lparr>offer_id = str_int n, stock = q\<rparr>]), remove1 (str_int n) ids1))
   \<and> (\<forall>pre ids acc ids1 post st ids'.
        seller_stocks_loop pre ids [] = (Inr acc, ids1) \<and> row_key w \<in> set ids1
          \<and> seller_create_stocks (pre @ w # post) ids = (Inr st, ids') \<longrightarrow>
        length acc < length st \<and> offer_id (st ! length acc) = row_key w)
   \<and> (\<forall>pre ids acc ids1 q.
        market_stocks_loop wid date pre ids [] = (Inr acc, ids1) \<and> row_code w = PInt n
          \<and> str_int n \<in> set ids1 \<and> resolve_stock (row_quantity w) = Inr q \<longrightarrow>
        market_stocks_loop wid date (pre @ [w]) ids []
          = (Inr (acc @ [\<lparr>sku = str_int n, warehouseId = wid,
                     items = [\<lparr>item_count = q, item_type = ''FIT'', updatedAt = date\<rparr>]\<rparr>]), remove1 (str_int n) ids1))
   \<and> (\<forall>pre ids acc ids1 post st ids'.
        market_stocks_loop wid date pre ids [] = (Inr acc, ids1) \<and> row_key w \<in> set ids1
          \<and> market_create_stocks wid date (pre @ w # post) ids = (Inr st, ids') \<longrightarrow>
        length acc < length st \<and> sku (st ! length acc) = row_key w)
   \<and> (\<forall>ps ids'. seller_create_prices rows ids = (Inr ps, ids') \<longrightarrow>
        map price_offer_id ps = map row_key (filter (\<lambda>w. row_key w \<in> set ids) rows)
        \<and> (w \<in> set rows \<and> row_code w = PInt n \<and> str_int n \<in> set ids \<longrightarrow>
             str_int n \<in> set (map price_offer_id ps)))
   \<and> (\<forall>ps ids'. market_create_prices rows ids = (Inr ps, ids') \<longrightarrow>
        map price_id ps = map row_key (filter (\<lambda>w. row_key w \<in> set ids) rows)
        \<and> (w \<in> set rows \<and> row_code w = PInt n \<and> str_int n \<in> set ids \<longrightarrow>
             str_int n \<in> set (map price_id ps)))
   \<and> int_of_str (str_int n) = Inr n
   \<and> (0 \<le> n \<longrightarrow> str_int n \<noteq> [] \<and> list_all is_digit (str_int n)
                  \<and> (hd (str_int n) = CHR ''0'' \<longrightarrow> n = 0))
   \<and> (n < 0 \<longrightarrow> str_int n = CHR ''-'' # str_int (- n))
   \<and> (\<forall>d. d \<noteq> [] \<and> list_all is_digit d \<and> (hd d = CHR ''0'' \<longrightarrow> d = ''0'')
            \<and> int (dec_value d) = n \<longrightarrow> str_int n = d)
   \<and> ((\<forall>j < length rows. matched_at rows ids j \<longrightarrow> resolves (rows ! j)) \<longrightarrow>
        (\<exists>st ids'. seller_create_stocks rows ids = (Inr st, ids')))
   \<and> ((\<forall>j < length rows. matched_at rows ids j \<longrightarrow> resolves (rows ! j)) \<longrightarrow>
        (\<exists>st ids'. market_create_stocks wid date rows ids = (Inr st, ids')))
   \<and> ((\<forall>w \<in> set rows. row_key w \<in> set ids \<longrightarrow> (\<exists>s. row_price w = PStr s)) \<longrightarrow>
        (\<exists>ps. seller_create_prices rows ids = (Inr ps, ids)))
   \<and> ((\<forall>w \<in> set rows. row_key w \<in> set ids \<longrightarrow>
          (\<exists>s. row_price w = PStr s \<and> price_conversion s \<noteq> [])) \<longrightarrow>
        (\<exists>ps. market_create_prices rows ids = (Inr ps, ids)))"
proof -
  have c1: "row_code w = PInt n \<longrightarrow> row_key w = str_int n" by simp
  have c2: "str_int 101 = ''101''" by code_simp
  have c3: "\<forall>pre ids acc ids1 q.
        seller_stocks_loop pre ids [] = (Inr acc, ids1) \<and> row_code w = PInt n
          \<and> str_int n \<in> set ids1 \<and> resolve_stock (row_quantity w) = Inr q \<longrightarrow>
        seller_stocks_loop (pre @ [w]) ids []
          = (Inr (acc @ [\<lparr>offer_id = str_int n, stock = q\<rparr>]), remove1 (str_int n) ids1)"
  proof (intro allI impI; elim conjE)
    fix pre ids acc ids1 q
    assume a: "seller_stocks_loop pre ids [] = (Inr acc, ids1)" "row_code w = PInt n"
      "str_int n \<in> set ids1" "resolve_stock (row_quantity w) = Inr q"
    from a(1) have pre: "stocks_loop (\<lambda>c n. \<lparr>offer_id = c, stock = n\<rparr>) pre ids [] = (Inr acc, ids1)"
      by (simp add: seller_stocks_loop_eq)
    from a(2,3) have m: "row_key w \<in> set ids1" by simp
    from stocks_loop_row(1) [OF pre m a(4)] a(2)
    show "seller_stocks_loop (pre @ [w]) ids []
          = (Inr (acc @ [\<lparr>offer_id = str_int n, stock = q\<rparr>]), remove1 (str_int n) ids1)"
      by (simp add: seller_stocks_loop_eq)
  qed
  have c4: "\<forall>pre ids acc ids1 post st ids'.
        seller_stocks_loop pre ids [] = (Inr acc, ids1) \<and> row_key w \<in> set ids1
          \<and> seller_create_stocks (pre @ w # post) ids = (Inr st, ids') \<longrightarrow>
        length acc < length st \<and> offer_id (st ! length acc) = row_key w"
  proof (intro allI impI; elim conjE)
    fix pre ids acc ids1 post st ids'
    assume a: "seller_stocks_loop pre ids [] = (Inr acc, ids1)" "row_key w \<in> set ids1"
      "seller_create_stocks (pre @ w # post) ids = (Inr st, ids')"
    from a(1) have pre: "stocks_loop (\<lambda>c n. \<lparr>offer_id = c, stock = n\<rparr>) pre ids [] = (Inr acc, ids1)"
      by (simp add: seller_stocks_loop_eq)
    from a(3) obtain st0 where
      run: "stocks_loop (\<lambda>c n. \<lparr>offer_id = c, stock = n\<rparr>) (pre @ w # post) ids [] = (Inr st0, ids')"
      and st: "st = st0 @ map (\<lambda>i. \<lparr>offer_id = i, stock = 0\<rparr>) ids'"
      using seller_create_stocks_Inr by blast
    from stocks_loop_row(3) [OF pre a(2) run] obtain q where
      "length acc < length st0" "st0 ! length acc = \<lparr>offer_id = row_key w, stock = q\<rparr>"
      by blast
    with st show "length acc < length st \<and> offer_id (st ! length acc) = row_key w"
      by (simp add: nth_append)
  qed
  have c5: "\<forall>pre ids acc ids1 q.
        market_stocks_loop wid date pre ids [] = (Inr acc, ids1) \<and> row_code w = PInt n
          \<and> str_int n \<in> set ids1 \<and> resolve_stock (row_quantity w) = Inr q \<longrightarrow>
        market_stocks_loop wid date (pre @ [w]) ids []
          = (Inr (acc @ [\<lparr>sku = str_int n, warehouseId = wid,
                     items = [\<lparr>item_count = q, item_type = ''FIT'', updatedAt = date\<rparr>]\<rparr>]), remove1 (str_int n) ids1)"
  proof (intro allI impI; elim conjE)
    fix pre ids acc ids1 q
    assume a: "market_stocks_loop wid date pre ids [] = (Inr acc, ids1)" "row_code w = PInt n"
      "str_int n \<in> set ids1" "resolve_stock (row_quantity w) = Inr q"
    from a(1) have pre: "stocks_loop (market_stock_record wid date) pre ids [] = (Inr acc, ids1)"
      by (simp add: market_stocks_loop_eq)
    from a(2,3) have m: "row_key w \<in> set ids1" by simp
    from stocks_loop_row(1) [OF pre m a(4)] a(2)
    show "market_stocks_loop wid date (pre @ [w]) ids []
          = (Inr (acc @ [\<lparr>sku = str_int n, warehouseId = wid,
                     items = [\<lparr>item_count = q, item_type = ''FIT'', updatedAt = date\<rparr>]\<rparr>]), remove1 (str_int n) ids1)"
      by (simp add: market_stocks_loop_eq market_stock_record_def)
  qed
  have c6: "\<forall>pre ids acc ids1 post st ids'.
        market_stocks_loop wid date pre ids [] = (Inr acc, ids1) \<and> row_key w \<in> set ids1
          \<and> market_create_stocks wid date (pre @ w # post) ids = (Inr st, ids') \<longrightarrow>
        length acc < length st \<and> sku (st ! length acc) = row_key w"
  proof (intro allI impI; elim conjE)
    fix pre ids acc ids1 post st ids'
    assume a: "market_stocks_loop wid date pre ids [] = (Inr acc, ids1)" "row_key w \<in> set ids1"
      "market_create_stocks wid date (pre @ w # post) ids = (Inr st, ids')"
    from a(1) have pre: "stocks_loop (market_stock_record wid date) pre ids [] = (Inr acc, ids1)"
      by (simp add: market_stocks_loop_eq)
    from a(3) obtain st0 where
      run: "stocks_loop (market_stock_record wid date) (pre @ w # post) ids [] = (Inr st0, ids')"
      and st: "st = st0 @ map (\<lambda>i. market_stock_record wid date i 0) ids'"
      using market_create_stocks_Inr by blast
    from stocks_loop_row(3) [OF pre a(2) run] obtain q where
      "length acc < length st0" "st0 ! length acc = market_stock_record wid date (row_key w) q"
      by blast
    with st show "length acc < length st \<and> sku (st ! length acc) = row_key w"
      by (simp add: nth_append market_stock_record_def)
  qed
  have c7: "\<forall>ps ids'. seller_create_prices rows ids = (Inr ps, ids') \<longrightarrow>
        map price_offer_id ps = map row_key (filter (\<lambda>w. row_key w \<in> set ids) rows)
        \<and> (w \<in> set rows \<and> row_code w = PInt n \<and> str_int n \<in> set ids \<longrightarrow>
             str_int n \<in> set (map price_offer_id ps))"
  proof (intro allI impI)
    fix ps ids'
    assume "seller_create_prices rows ids = (Inr ps, ids')"
    then have run: "prices_loop price_conversion_val seller_price_record rows ids [] = (Inr ps, ids')"
      by (simp add: seller_create_prices_def seller_prices_loop_eq)
    have key: "\<forall>c v. price_offer_id (seller_price_record c v) = c"
      by (simp add: seller_price_record_def)
    have eq: "map price_offer_id ps = map row_key (filter (\<lambda>w. row_key w \<in> set ids) rows)"
      by (rule prices_loop_keys [where key = price_offer_id, OF key run])
    have "w \<in> set rows \<and> row_code w = PInt n \<and> str_int n \<in> set ids \<longrightarrow>
             str_int n \<in> set (map price_offer_id ps)"
      unfolding eq by force
    with eq show "map price_offer_id ps = map row_key (filter (\<lambda>w. row_key w \<in> set ids) rows)
        \<and> (w \<in> set rows \<and> row_code w = PInt n \<and> str_int n \<in> set ids \<longrightarrow>
             str_int n \<in> set (map price_offer_id ps))"
      by (rule conjI)
  qed
  have c8: "\<forall>ps ids'. market_create_prices rows ids = (Inr ps, ids') \<longrightarrow>
        map price_id ps = map row_key (filter (\<lambda>w. row_key w \<in> set ids) rows)
        \<and> (w \<in> set rows \<and> row_code w = PInt n \<and> str_int n \<in> set ids \<longrightarrow>
             str_int n \<in> set (map price_id ps))"
  proof (intro allI impI)
    fix ps ids'
    assume "market_create_prices rows ids = (Inr ps, ids')"
    then have run: "prices_loop market_price_of market_price_record rows ids [] = (Inr ps, ids')"
      by (simp add: market_create_prices_def market_prices_loop_eq)
    have key: "\<forall>c v. price_id (market_price_record c v) = c"
      by (simp add: market_price_record_def)
    have eq: "map price_id ps = map row_key (filter (\<lambda>w. row_key w \<in> set ids) rows)"
      by (rule prices_loop_keys [where key = price_id, OF key run])
    have "w \<in> set rows \<and> row_code w = PInt n \<and> str_int n \<in> set ids \<longrightarrow>
             str_int n \<in> set (map price_id ps)"
      unfolding eq by force
    with eq show "map price_id ps = map row_key (filter (\<lambda>w. row_key w \<in> set ids) rows)
        \<and> (w \<in> set rows \<and> row_code w = PInt n \<and> str_int n \<in> set ids \<longrightarrow>
             str_int n \<in> set (map price_id ps))"
      by (rule conjI)
  qed
  have k2: "int_of_str (str_int n) = Inr n" by (rule int_of_str_str_int)
  have k3: "0 \<le> n \<longrightarrow> str_int n \<noteq> [] \<and> list_all is_digit (str_int n)
                  \<and> (hd (str_int n) = CHR ''0'' \<longrightarrow> n = 0)"
    using str_int_canonical [of n] by blast
  have k3b: "n < 0 \<longrightarrow> str_int n = CHR ''-'' # str_int (- n)"
    using str_int_neg [of n] by blast
  have k4: "\<forall>d. d \<noteq> [] \<and> list_all is_digit d \<and> (hd d = CHR ''0'' \<longrightarrow> d = ''0'')
            \<and> int (dec_value d) = n \<longrightarrow> str_int n = d"
    using str_int_unique [of _ n] by blast
  have r1: "(\<forall>j < length rows. matched_at rows ids j \<longrightarrow> resolves (rows ! j)) \<longrightarrow>
        (\<exists>st ids'. seller_create_stocks rows ids = (Inr st, ids'))"
  proof
    assume "\<forall>j < length rows. matched_at rows ids j \<longrightarrow> resolves (rows ! j)"
    from stocks_loop_returns [OF this, of "\<lambda>c n. \<lparr>offer_id = c, stock = n\<rparr>" "[]"]
    show "\<exists>st ids'. seller_create_stocks rows ids = (Inr st, ids')"
      using seller_create_stocks_Inr by blast
  qed
  have r2: "(\<forall>j < length rows. matched_at rows ids j \<longrightarrow> resolves (rows ! j)) \<longrightarrow>
        (\<exists>st ids'. market_create_stocks wid date rows ids = (Inr st, ids'))"
  proof
    assume "\<forall>j < length rows. matched_at rows ids j \<longrightarrow> resolves (rows ! j)"
    from stocks_loop_returns [OF this, of "market_stock_record wid date" "[]"]
    show "\<exists>st ids'. market_create_stocks wid date rows ids = (Inr st, ids')"
      using market_create_stocks_Inr by blast
  qed
  have r3: "(\<forall>w \<in> set rows. row_key w \<in> set ids \<longrightarrow> (\<exists>s. row_price w = PStr s)) \<longrightarrow>
        (\<exists>ps. seller_create_prices rows ids = (Inr ps, ids))"
  proof
    assume "\<forall>w \<in> set rows. row_key w \<in> set ids \<longrightarrow> (\<exists>s. row_price w = PStr s)"
    then have "\<forall>w \<in> set rows. row_key w \<in> set ids \<longrightarrow>
                 (\<exists>v. price_conversion_val (row_price w) = Inr v)"
      by (auto simp: price_conversion_val_Inr)
    from prices_loop_total [OF this]
    show "\<exists>ps. seller_create_prices rows ids = (Inr ps, ids)"
      by (simp add: seller_create_prices_def seller_prices_loop_eq)
  qed
  have r4: "(\<forall>w \<in> set rows. row_key w \<in> set ids \<longrightarrow>
          (\<exists>s. row_price w = PStr s \<and> price_conversion s \<noteq> [])) \<longrightarrow>
        (\<exists>ps. market_create_prices rows ids = (Inr ps, ids))"
  proof
    assume "\<forall>w \<in> set rows. row_key w \<in> set ids \<longrightarrow>
          (\<exists>s. row_price w = PStr s \<and> price_conversion s \<noteq> [])"
    then have "\<forall>w \<in> set rows. row_key w \<in> set ids \<longrightarrow> (\<exists>v. market_price_of (row_price w) = Inr v)"
      by (auto simp: market_price_of_Inr)
    from prices_loop_total [OF this]
    show "\<exists>ps. market_create_prices rows ids = (Inr ps, ids)"
      by (simp add: market_create_prices_def market_prices_loop_eq)
  qed
  from c1 c2 c3 c4 c5 c6 c7 c8 k2 k3 k3b k4 r1 r2 r3 r4 show ?thesis by (intro conjI)
qed

theorem code_coercion_witness:
  "row_key (example_row (PInt 101) ''5990'' ''5'') = ''101''
   \<and> str_int 101 = ''101''
   \<and> seller_stocks_loop ([] @ [example_row (PInt 101) ''5990'' ''5'']) [''101''] []
       = (Inr ([] @ [\<lparr>offer_id = str_int 101, stock = 5\<rparr>]), remove1 (str_int 101) [''101''])
   \<and> market_stocks_loop ''wh'' ''now'' ([] @ [example_row (PInt 101) ''5990'' ''5'']) [''101''] []
       = (Inr ([] @ [\<lparr>sku = str_int 101, warehouseId = ''wh'',
                      items = [\<lparr>item_count = 5, item_type = ''FIT'', updatedAt = ''now''\<rparr>]\<rparr>]),
          remove1 (str_int 101) [''101''])
   \<and> market_create_prices [example_row (PInt 101) ''5990'' ''5''] [''101'']
       = (Inr [\<lparr>price_id = ''101'', price_body = \<lparr>price_value = 5990, currencyId = ''RUR''\<rparr>\<rparr>],
          [''101''])
   \<and> map price_id [\<lparr>price_id = ''101'', price_body = \<lparr>price_value = 5990, currencyId = ''RUR''\<rparr>\<rparr>]
       = map row_key (filter (\<lambda>w. row_key w \<in> set [''101''])
           [example_row (PInt 101) ''5990'' ''5''])
   \<and> (\<exists>st ids'. market_create_stocks ''wh'' ''now'' [example_row (PInt 101) ''5990'' ''5'']
          [''101''] = (Inr st, ids'))"
proof -
  let ?w = "example_row (PInt 101) ''5990'' ''5''"
  note t = code_coercion [of ?w 101 "''wh''" "''now''" "[?w]" "[''101'']"]
  have rc: "row_code ?w = PInt 101" by (simp add: example_row_def)
  have dv: "dec_value ''101'' = 101" by code_simp
  have dg: "list_all is_digit ''101''" by code_simp
  have hyp: "''101'' \<noteq> [] \<and> list_all is_digit ''101'' \<and> (hd ''101'' = CHR ''0'' \<longrightarrow> ''101'' = ''0'')
      \<and> int (dec_value ''101'') = 101"
    using dv dg by simp
  have s101: "str_int 101 = ''101''"
    by (rule t [THEN conjunct2, THEN conjunct2, THEN conjunct2, THEN conjunct2, THEN conjunct2,
        THEN conjunct2, THEN conjunct2, THEN conjunct2, THEN conjunct2, THEN conjunct2,
        THEN conjunct2, THEN conjunct1, THEN spec, THEN mp, OF hyp])
  have a: "row_key ?w = ''101''"
    using t [THEN conjunct1, THEN mp, OF rc] s101 by simp
  have rs: "resolve_stock (row_quantity ?w) = Inr 5" by code_simp
  have p: "seller_stocks_loop [] [''101''] [] = (Inr [], [''101'']) \<and> row_code ?w = PInt 101
          \<and> str_int 101 \<in> set [''101''] \<and> resolve_stock (row_quantity ?w) = Inr 5"
    using rc s101 rs by simp
  note b = t [THEN conjunct2, THEN conjunct2, THEN conjunct1,
      THEN spec, THEN spec, THEN spec, THEN spec, THEN spec, THEN mp, OF p]
  have pm: "market_stocks_loop ''wh'' ''now'' [] [''101''] [] = (Inr [], [''101''])
          \<and> row_code ?w = PInt 101
          \<and> str_int 101 \<in> set [''101''] \<and> resolve_stock (row_quantity ?w) = Inr 5"
    using rc s101 rs by simp
  note bm = t [THEN conjunct2, THEN conjunct2, THEN conjunct2, THEN conjunct2, THEN conjunct1,
      THEN spec, THEN spec, THEN spec, THEN spec, THEN spec, THEN mp, OF pm]
  have ev: "market_create_prices [?w] [''101'']
       = (Inr [\<lparr>price_id = ''101'', price_body = \<lparr>price_value = 5990, currencyId = ''RUR''\<rparr>\<rparr>],
          [''101''])"
    by code_simp
  note c = t [THEN conjunct2, THEN conjunct2, THEN conjunct2, THEN conjunct2, THEN conjunct2,
      THEN conjunct2, THEN conjunct2, THEN conjunct1, THEN spec, THEN spec, THEN mp, OF ev,
      THEN conjunct1]
  have r5: "resolves ?w" by code_simp
  have h: "\<forall>j < length [?w]. matched_at [?w] [''101''] j \<longrightarrow> resolves ([?w] ! j)"
    using r5 by simp
  note d = t [THEN conjunct2, THEN conjunct2, THEN conjunct2, THEN conjunct2, THEN conjunct2,
      THEN conjunct2, THEN conjunct2, THEN conjunct2, THEN conjunct2, THEN conjunct2,
      THEN conjunct2, THEN conjunct2, THEN conjunct2, THEN conjunct1, THEN mp, OF h]
  from a s101 b bm ev c d show ?thesis by (intro conjI)
qed

end
